theory Spec2Isabelle
  imports Complex_Main "HOL-Library.Word"
begin

section \<open>Values on the wire\<close>

text \<open>
  Bytes are the elements of a \<^verbatim>\<open>Uint8Array\<close>. A text frame carries the output of
  \<^verbatim>\<open>JSON.stringify\<close> and is read with \<^verbatim>\<open>JSON.parse\<close>; both are built-ins of the
  JavaScript engine, so a text frame is represented by the value \<^verbatim>\<open>JSON.parse\<close> gives
  for it: \<open>Text None\<close> is a string on which \<^verbatim>\<open>JSON.parse\<close> throws. An object keeps its
  properties in order, each name once; \<open>None\<close> of type \<open>json option\<close> is \<^verbatim>\<open>undefined\<close>.
  Numbers are exact rationals (the engine has IEEE doubles: division and multiplication
  round, monotonically, which the order properties below do not depend on).
\<close>

type_synonym byte = "8 word"
type_synonym bytes = "byte list"

datatype json =
    JNull
  | JBool bool
  | JNum rat
  | JStr string
  | JArr "json list"
  | JObj "(string \<times> json) list"

datatype frame = Text "json option" | Binary bytes

text \<open>JavaScript truthiness, as tested by \<^verbatim>\<open>!msg\<close>, \<^verbatim>\<open>msg.pub\<close>, \<^verbatim>\<open>meta?.hash\<close>, \<^verbatim>\<open>meta?.size\<close>.\<close>

fun truthy :: "json \<Rightarrow> bool" where
  "truthy JNull = False"
| "truthy (JBool b) = b"
| "truthy (JNum n) = (n \<noteq> 0)"
| "truthy (JStr s) = (s \<noteq> [])"
| "truthy (JArr xs) = True"
| "truthy (JObj kvs) = True"

fun truthy_opt :: "json option \<Rightarrow> bool" where
  "truthy_opt None = False"
| "truthy_opt (Some v) = truthy v"

text \<open>
  Property access \<^verbatim>\<open>v.f\<close> on a truthy parsed value, for the property names the protocol
  reads (\<^verbatim>\<open>type\<close>, \<^verbatim>\<open>name\<close>, \<^verbatim>\<open>size\<close>, \<^verbatim>\<open>hash\<close>, \<^verbatim>\<open>ecdhPub\<close>, \<^verbatim>\<open>iv\<close>, \<^verbatim>\<open>len\<close>, \<^verbatim>\<open>pub\<close>): only an
  object can have them.
\<close>

fun field :: "json \<Rightarrow> string \<Rightarrow> json option" where
  "field (JObj kvs) f = map_of kvs f"
| "field v f = None"

fun optfield :: "json option \<Rightarrow> string \<Rightarrow> json option" where
  "optfield None f = None"
| "optfield (Some v) f = field v f"

section \<open>The platform: Web Crypto and typed arrays\<close>

text \<open>
  \<^verbatim>\<open>crypto.subtle\<close> and the \<^verbatim>\<open>Uint8Array\<close> constructor belong to the browser, not to the
  program. They are the fields of a record that every function of the program takes:
  \<^item> \<open>exportKey\<close>, \<open>importKey\<close>: a public key to and from its JWK (\<open>Inl e\<close>: the promise
    rejects with \<open>e\<close>);
  \<^item> \<open>deriveBits\<close>: ECDH, own private key and the peer's public key to 256 shared bits;
  \<^item> \<open>digest\<close>: SHA-256;
  \<^item> \<open>encrypt\<close>, \<open>decrypt\<close>: AES-GCM with key, IV and data (\<open>None\<close>: the promise rejects);
  \<^item> \<open>u8other\<close>: \<^verbatim>\<open>new Uint8Array(x)\<close> where \<open>x\<close> is not an array of numbers
    (\<open>Inl e\<close>: the constructor throws \<open>e\<close>);
  \<^item> \<open>ratio\<close>: \<^verbatim>\<open>(n / x) * 100\<close> where \<open>x\<close> is truthy and not a number (\<open>None\<close>: not a
    finite number).
  An AES key imported from raw bytes is represented by those bytes.
\<close>

datatype error = DataError | TypeError | OperationError | RangeError

record ('sk, 'pk) platform =
  exportKey :: "'pk \<Rightarrow> json"
  importKey :: "json option \<Rightarrow> error + 'pk"
  deriveBits :: "'sk \<Rightarrow> 'pk \<Rightarrow> bytes"
  digest :: "bytes \<Rightarrow> bytes"
  encrypt :: "bytes \<Rightarrow> bytes \<Rightarrow> bytes \<Rightarrow> bytes"
  decrypt :: "bytes \<Rightarrow> bytes \<Rightarrow> bytes \<Rightarrow> bytes option"
  u8other :: "json option \<Rightarrow> error + bytes"
  ratio :: "nat \<Rightarrow> json \<Rightarrow> rat option"


section \<open>crypto.js\<close>

definition exportPubKeyJwk :: "('sk, 'pk) platform \<Rightarrow> 'pk \<Rightarrow> json" where
  "exportPubKeyJwk P publicKey = exportKey P publicKey"

definition importPubKeyJwk :: "('sk, 'pk) platform \<Rightarrow> json option \<Rightarrow> error + 'pk" where
  "importPubKeyJwk P jwk = importKey P jwk"

definition deriveAesKey :: "('sk, 'pk) platform \<Rightarrow> 'sk \<Rightarrow> 'pk \<Rightarrow> bytes" where
  "deriveAesKey P myPrivateKey theirPublicKey =
     (let bits = deriveBits P myPrivateKey theirPublicKey;
          hash = digest P bits
      in hash)"

text \<open>\<^verbatim>\<open>Array.from(iv)\<close>: the bytes as an array of numbers.\<close>

definition array_from :: "bytes \<Rightarrow> json" where
  "array_from iv = JArr (map (\<lambda>b. JNum (of_nat (unat b))) iv)"

text \<open>
  \<^verbatim>\<open>aesGcmEncrypt\<close>; the argument \<open>iv\<close> is what \<^verbatim>\<open>crypto.getRandomValues(new Uint8Array(12))\<close>
  returned in this call.
\<close>

definition aesGcmEncrypt :: "('sk, 'pk) platform \<Rightarrow> bytes \<Rightarrow> bytes \<Rightarrow> bytes \<Rightarrow> json \<times> bytes" where
  "aesGcmEncrypt P aesKey iv data = (array_from iv, encrypt P aesKey iv data)"

text \<open>
  \<^verbatim>\<open>new Uint8Array(ivArray)\<close>: an array of numbers is converted element by element
  (truncation towards zero, then modulo 256).
\<close>

fun is_number :: "json \<Rightarrow> bool" where
  "is_number (JNum q) = True"
| "is_number v = False"

fun to_uint8 :: "json \<Rightarrow> byte" where
  "to_uint8 (JNum q) = word_of_int (if 0 \<le> q then \<lfloor>q\<rfloor> else \<lceil>q\<rceil>)"
| "to_uint8 v = 0"

definition newUint8Array :: "('sk, 'pk) platform \<Rightarrow> json option \<Rightarrow> error + bytes" where
  "newUint8Array P x =
     (case x of
        Some (JArr xs) \<Rightarrow> if list_all is_number xs then Inr (map to_uint8 xs) else u8other P x
      | _ \<Rightarrow> u8other P x)"

text \<open>\<^verbatim>\<open>aesGcmDecrypt\<close>; the key is \<open>None\<close> while the receiver's \<^verbatim>\<open>aesKey\<close> is still \<^verbatim>\<open>null\<close>.\<close>

definition aesGcmDecrypt ::
  "('sk, 'pk) platform \<Rightarrow> bytes option \<Rightarrow> json option \<Rightarrow> bytes \<Rightarrow> error + bytes" where
  "aesGcmDecrypt P aesKey ivArray ctU8 =
     (case newUint8Array P ivArray of
        Inl e \<Rightarrow> Inl e
      | Inr iv \<Rightarrow>
          (case aesKey of
             None \<Rightarrow> Inl TypeError
           | Some k \<Rightarrow>
               (case decrypt P k iv ctU8 of
                  None \<Rightarrow> Inl OperationError
                | Some pt \<Rightarrow> Inr pt)))"

text \<open>\<^verbatim>\<open>b.toString(16).padStart(2, "0")\<close> and \<^verbatim>\<open>sha256\<close>: lower-case hexadecimal.\<close>

definition hexdigit :: "nat \<Rightarrow> char" where
  "hexdigit d = ''0123456789abcdef'' ! d"

definition hex2 :: "byte \<Rightarrow> string" where
  "hex2 b = [hexdigit (unat b div 16), hexdigit (unat b mod 16)]"

definition sha256 :: "('sk, 'pk) platform \<Rightarrow> bytes \<Rightarrow> string" where
  "sha256 P buffer = concat (map hex2 (digest P buffer))"

section \<open>The receiver (useReceiver)\<close>

text \<open>
  The closure variables of \<^verbatim>\<open>useReceiver\<close>, and what it has done to the outside so far:
  the calls of \<^verbatim>\<open>setStatus\<close>, \<^verbatim>\<open>setProgress\<close> and \<^verbatim>\<open>setDownloadUrl\<close> (the URL stands for the
  blob's bytes) and the frames given to \<^verbatim>\<open>dc.send\<close>, oldest first.
\<close>

datatype status =
    WaitingForMetadata
  | Receiving "json option" "json option"
  | IntegrityCheckFailed
  | CompletedIntegrityOK
  | CalculatingFileHash
  | WaitingForReceiverKey
  | SendingEncrypted
  | CompletedEncrypted

record ('sk, 'pk) receiver =
  meta :: "json option"
  receivedBytes :: nat
  chunks :: "bytes list"
  expectingBinary :: "json option"
  pendingChunkInfo :: "json option"
  myKeys :: "'sk \<times> 'pk"
  aesKey :: "bytes option"
  statusLog :: "status list"
  progressLog :: "rat option list"
  urlLog :: "bytes list"
  outbox :: "frame list"

text \<open>\<^verbatim>\<open>bind\<close>, with the key pair that \<^verbatim>\<open>generateECDH\<close> returned.\<close>

definition bind :: "'sk \<times> 'pk \<Rightarrow> ('sk, 'pk) receiver" where
  "bind keyPair =
     \<lparr> meta = None, receivedBytes = 0, chunks = [], expectingBinary = Some (JNum 0),
       pendingChunkInfo = None, myKeys = keyPair, aesKey = None,
       statusLog = [WaitingForMetadata], progressLog = [], urlLog = [], outbox = [] \<rparr>"

text \<open>\<^verbatim>\<open>(receivedBytes / meta.size) * 100\<close>, for a truthy \<^verbatim>\<open>meta.size\<close>.\<close>

definition percent :: "('sk, 'pk) platform \<Rightarrow> nat \<Rightarrow> json \<Rightarrow> rat option" where
  "percent P n sz = (case sz of JNum q \<Rightarrow> Some ((of_nat n / q) * 100) | _ \<Rightarrow> ratio P n sz)"

definition ekey_msg :: "json \<Rightarrow> json" where
  "ekey_msg myPubJwk = JObj [(''type'', JStr ''ekey''), (''pub'', myPubJwk)]"

text \<open>
  The handler \<^verbatim>\<open>dc.onmessage\<close> is an \<^verbatim>\<open>async\<close> function: it runs until it awaits an
  operation of the platform, is suspended there, and goes on when that operation has
  settled; message events that arrive in between are dispatched in between. It is
  embedded twice. \<open>onmessage\<close> is the handler run without interruption, every awaited
  operation settling at once: it says what one handler does to the state it starts from
  when no other handler runs before it ends. \<open>dispatch\<close> and \<open>resume\<close> below are the
  same handler cut at its awaits, and \<open>event_loop\<close> runs the handlers of several frames
  interleaved. The result of a handler is the exception that rejected its promise, if any,
  and the state it leaves: an exception ends the handler where it is thrown, keeps what
  was assigned before, and nothing catches it.
\<close>

text \<open>
  The template literal of the status line converts \<^verbatim>\<open>meta.name\<close> to a string and
  \<^verbatim>\<open>meta.size\<close> to a number. For a parsed JSON value the conversion throws a
  \<^verbatim>\<open>TypeError\<close> exactly when it meets an object with a property \<^verbatim>\<open>toString\<close> of its own
  (no JSON value is callable), in the value itself or in an element of an array, which is
  joined element by element.
\<close>

fun printable :: "json \<Rightarrow> bool" where
  "printable (JObj kvs) = (''toString'' \<notin> fst ` set kvs)"
| "printable (JArr xs) = (\<forall>x \<in> set xs. printable x)"
| "printable v = True"

fun printable_opt :: "json option \<Rightarrow> bool" where
  "printable_opt None = True"
| "printable_opt (Some v) = printable v"

definition status_of_meta :: "json \<Rightarrow> error + status" where
  "status_of_meta msg =
     (if printable_opt (field msg ''name'') \<and> printable_opt (field msg ''size'')
      then Inr (Receiving (field msg ''name'') (field msg ''size''))
      else Inl TypeError)"

definition on_meta ::
  "('sk, 'pk) platform \<Rightarrow> ('sk, 'pk) receiver \<Rightarrow> json \<Rightarrow> error option \<times> ('sk, 'pk) receiver" where
  "on_meta P r msg =
     (let r0 = r\<lparr> meta := Some msg \<rparr>
      in case status_of_meta msg of
           Inl e \<Rightarrow> (Some e, r0)
         | Inr st \<Rightarrow>
             (let r1 = r0\<lparr> statusLog := statusLog r0 @ [st] \<rparr>
              in case importPubKeyJwk P (field msg ''ecdhPub'') of
                   Inl e \<Rightarrow> (Some e, r1)
                 | Inr senderPub \<Rightarrow>
                     (let k = deriveAesKey P (fst (myKeys r1)) senderPub;
                          myPubJwk = exportPubKeyJwk P (snd (myKeys r1))
                      in (None, r1\<lparr> aesKey := Some k,
                                   outbox := outbox r1 @ [Text (Some (ekey_msg myPubJwk))] \<rparr>))))"

definition on_chunk :: "('sk, 'pk) receiver \<Rightarrow> json \<Rightarrow> error option \<times> ('sk, 'pk) receiver" where
  "on_chunk r msg = (None, r\<lparr> pendingChunkInfo := Some msg, expectingBinary := field msg ''len'' \<rparr>)"

text \<open>
  The end of the \<^verbatim>\<open>end\<close> branch: the comparison of the digest with \<^verbatim>\<open>meta.hash\<close>, for
  the blob that was built when the branch started.
\<close>

definition verify :: "('sk, 'pk) receiver \<Rightarrow> bytes \<Rightarrow> string \<Rightarrow> ('sk, 'pk) receiver" where
  "verify r blob hash =
     (if truthy_opt (optfield (meta r) ''hash'') \<and> Some (JStr hash) \<noteq> optfield (meta r) ''hash''
      then r\<lparr> statusLog := statusLog r @ [IntegrityCheckFailed] \<rparr>
      else r\<lparr> urlLog := urlLog r @ [blob],
              statusLog := statusLog r @ [CompletedIntegrityOK] \<rparr>)"

definition on_end ::
  "('sk, 'pk) platform \<Rightarrow> ('sk, 'pk) receiver \<Rightarrow> error option \<times> ('sk, 'pk) receiver" where
  "on_end P r =
     (let blob = concat (chunks r);
          hash = sha256 P blob
      in (None, verify r blob hash))"

text \<open>What the binary branch does with a decrypted chunk.\<close>

definition accept ::
  "('sk, 'pk) platform \<Rightarrow> ('sk, 'pk) receiver \<Rightarrow> bytes \<Rightarrow> ('sk, 'pk) receiver" where
  "accept P r pt =
     (let r1 = r\<lparr> chunks := chunks r @ [pt],
                  receivedBytes := receivedBytes r + length pt,
                  pendingChunkInfo := None,
                  expectingBinary := Some (JNum 0) \<rparr>
      in case optfield (meta r1) ''size'' of
           None \<Rightarrow> r1
         | Some sz \<Rightarrow>
             if truthy sz
             then r1\<lparr> progressLog := progressLog r1 @ [percent P (receivedBytes r1) sz] \<rparr>
             else r1)"

definition on_binary ::
  "('sk, 'pk) platform \<Rightarrow> ('sk, 'pk) receiver \<Rightarrow> bytes \<Rightarrow> error option \<times> ('sk, 'pk) receiver" where
  "on_binary P r ct =
     (if \<not> truthy_opt (pendingChunkInfo r) then (None, r)
      else case aesGcmDecrypt P (aesKey r) (optfield (pendingChunkInfo r) ''iv'') ct of
             Inl e \<Rightarrow> (Some e, r)
           | Inr pt \<Rightarrow> (None, accept P r pt))"

fun onmessage ::
  "('sk, 'pk) platform \<Rightarrow> ('sk, 'pk) receiver \<Rightarrow> frame \<Rightarrow> error option \<times> ('sk, 'pk) receiver" where
  "onmessage P r (Text None) = (None, r)"
| "onmessage P r (Text (Some msg)) =
     (if \<not> truthy msg then (None, r)
      else if field msg ''type'' = Some (JStr ''meta'') then on_meta P r msg
      else if field msg ''type'' = Some (JStr ''chunk'') then on_chunk r msg
      else if field msg ''type'' = Some (JStr ''end'') then on_end P r
      else (None, r))"
| "onmessage P r (Binary ct) = on_binary P r ct"

text \<open>The state after a frame, and after a sequence of frames delivered in order.\<close>

definition deliver :: "('sk, 'pk) platform \<Rightarrow> ('sk, 'pk) receiver \<Rightarrow> frame \<Rightarrow> ('sk, 'pk) receiver" where
  "deliver P r f = snd (onmessage P r f)"

definition run :: "('sk, 'pk) platform \<Rightarrow> ('sk, 'pk) receiver \<Rightarrow> frame list \<Rightarrow> ('sk, 'pk) receiver" where
  "run P r fs = foldl (deliver P) r fs"

text \<open>The exceptions raised while a sequence of frames is delivered, in order.\<close>

fun raised :: "('sk, 'pk) platform \<Rightarrow> ('sk, 'pk) receiver \<Rightarrow> frame list \<Rightarrow> error list" where
  "raised P r [] = []"
| "raised P r (f # fs) =
     (case fst (onmessage P r f) of None \<Rightarrow> [] | Some e \<Rightarrow> [e]) @ raised P (deliver P r f) fs"

subsection \<open>The handler cut at its awaits\<close>

text \<open>
  A suspended handler: the await it stopped at, with what the awaited promise settles to
  (the operations of the platform are functions of their arguments, which are evaluated
  when the operation is called) and the local variables the rest of the handler uses.
  \<^item> \<open>AwaitImport\<close>: \<^verbatim>\<open>await importPubKeyJwk(meta.ecdhPub)\<close>;
  \<^item> \<open>AwaitDerive\<close>: \<^verbatim>\<open>aesKey = await deriveAesKey(myKeys.privateKey, senderPub)\<close>;
  \<^item> \<open>AwaitExport\<close>: \<^verbatim>\<open>await exportPubKeyJwk(myKeys.publicKey)\<close>;
  \<^item> \<open>AwaitBuffer\<close>: \<^verbatim>\<open>await blob.arrayBuffer()\<close>, with the bytes of \<^verbatim>\<open>blob\<close>;
  \<^item> \<open>AwaitDigest\<close>: \<^verbatim>\<open>await sha256(...)\<close>, with the bytes of \<^verbatim>\<open>blob\<close> and the digest;
  \<^item> \<open>AwaitDecrypt\<close>: \<^verbatim>\<open>await aesGcmDecrypt(aesKey, pendingChunkInfo.iv, ct)\<close>.
\<close>

datatype 'pk cont =
    AwaitImport "error + 'pk"
  | AwaitDerive bytes
  | AwaitExport json
  | AwaitBuffer bytes
  | AwaitDigest bytes string
  | AwaitDecrypt "error + bytes"

text \<open>
  The handler from the message event to its first await: the exception thrown, the state
  and the suspended rest of the handler (\<open>None\<close>: the handler has ended).
\<close>

fun dispatch ::
  "('sk, 'pk) platform \<Rightarrow> ('sk, 'pk) receiver \<Rightarrow> frame
     \<Rightarrow> error option \<times> ('sk, 'pk) receiver \<times> 'pk cont option" where
  "dispatch P r (Text None) = (None, r, None)"
| "dispatch P r (Text (Some msg)) =
     (if \<not> truthy msg then (None, r, None)
      else if field msg ''type'' = Some (JStr ''meta'') then
        (let r0 = r\<lparr> meta := Some msg \<rparr>
         in case status_of_meta msg of
              Inl e \<Rightarrow> (Some e, r0, None)
            | Inr st \<Rightarrow>
                (None, r0\<lparr> statusLog := statusLog r0 @ [st] \<rparr>,
                 Some (AwaitImport (importPubKeyJwk P (field msg ''ecdhPub'')))))
      else if field msg ''type'' = Some (JStr ''chunk'') then
        (None, r\<lparr> pendingChunkInfo := Some msg, expectingBinary := field msg ''len'' \<rparr>, None)
      else if field msg ''type'' = Some (JStr ''end'') then
        (None, r, Some (AwaitBuffer (concat (chunks r))))
      else (None, r, None))"
| "dispatch P r (Binary ct) =
     (if \<not> truthy_opt (pendingChunkInfo r) then (None, r, None)
      else (None, r,
            Some (AwaitDecrypt
                    (aesGcmDecrypt P (aesKey r) (optfield (pendingChunkInfo r) ''iv'') ct))))"

text \<open>A suspended handler from the await it stopped at to its next await or its end.\<close>

fun resume ::
  "('sk, 'pk) platform \<Rightarrow> ('sk, 'pk) receiver \<Rightarrow> 'pk cont
     \<Rightarrow> error option \<times> ('sk, 'pk) receiver \<times> 'pk cont option" where
  "resume P r (AwaitImport (Inl e)) = (Some e, r, None)"
| "resume P r (AwaitImport (Inr senderPub)) =
     (None, r, Some (AwaitDerive (deriveAesKey P (fst (myKeys r)) senderPub)))"
| "resume P r (AwaitDerive k) =
     (None, r\<lparr> aesKey := Some k \<rparr>, Some (AwaitExport (exportPubKeyJwk P (snd (myKeys r)))))"
| "resume P r (AwaitExport myPubJwk) =
     (None, r\<lparr> outbox := outbox r @ [Text (Some (ekey_msg myPubJwk))] \<rparr>, None)"
| "resume P r (AwaitBuffer buffer) = (None, r, Some (AwaitDigest buffer (sha256 P buffer)))"
| "resume P r (AwaitDigest blob hash) = (None, verify r blob hash, None)"
| "resume P r (AwaitDecrypt (Inl e)) = (Some e, r, None)"
| "resume P r (AwaitDecrypt (Inr pt)) = (None, accept P r pt, None)"

text \<open>
  The event loop of the receiving page: the state of the receiver, the frames that have
  been sent to it and are not dispatched yet, the suspended handlers (oldest first) and the
  exceptions raised so far. In one turn the loop either dispatches the next frame, in the
  order sent, or resumes one suspended handler; a resumed handler that stops at a further
  await keeps its place among the suspended ones. A turn that has nothing to act on
  changes nothing. Which turn comes when is decided by the arrival of the frames and by
  the time the platform's operations take: a schedule is a list of turns.
\<close>

record ('sk, 'pk) loop =
  rcv :: "('sk, 'pk) receiver"
  queue :: "frame list"
  suspended :: "'pk cont list"
  rejected :: "error list"

datatype turn = Dispatch | Resume nat

fun thrown :: "error option \<Rightarrow> error list" where
  "thrown None = []"
| "thrown (Some e) = [e]"

fun replace_at :: "'a list \<Rightarrow> nat \<Rightarrow> 'a option \<Rightarrow> 'a list" where
  "replace_at cs i None = take i cs @ drop (Suc i) cs"
| "replace_at cs i (Some c) = cs[i := c]"

fun step :: "('sk, 'pk) platform \<Rightarrow> ('sk, 'pk) loop \<Rightarrow> turn \<Rightarrow> ('sk, 'pk) loop" where
  "step P s Dispatch =
     (case queue s of
        [] \<Rightarrow> s
      | f # fs \<Rightarrow>
          (case dispatch P (rcv s) f of
             (e, r, c) \<Rightarrow>
               s\<lparr> rcv := r, queue := fs,
                  suspended := suspended s @ (case c of None \<Rightarrow> [] | Some k \<Rightarrow> [k]),
                  rejected := rejected s @ thrown e \<rparr>))"
| "step P s (Resume i) =
     (if i < length (suspended s)
      then (case resume P (rcv s) (suspended s ! i) of
              (e, r, c) \<Rightarrow>
                s\<lparr> rcv := r,
                   suspended := replace_at (suspended s) i c,
                   rejected := rejected s @ thrown e \<rparr>)
      else s)"

definition event_loop :: "('sk, 'pk) platform \<Rightarrow> ('sk, 'pk) loop \<Rightarrow> turn list \<Rightarrow> ('sk, 'pk) loop" where
  "event_loop P s sched = foldl (step P) s sched"

text \<open>The schedule that lets the handler of every frame end before the next frame is dispatched.\<close>

definition serial :: "frame list \<Rightarrow> turn list" where
  "serial fs = concat (map (\<lambda>f. [Dispatch, Resume 0, Resume 0, Resume 0]) fs)"

definition chunk_msg :: "json \<Rightarrow> nat \<Rightarrow> json" where
  "chunk_msg iv n = JObj [(''type'', JStr ''chunk''), (''iv'', iv), (''len'', JNum (of_nat n))]"

definition end_msg :: json where
  "end_msg = JObj [(''type'', JStr ''end'')]"

section \<open>The sender (sendFileInChunks)\<close>

record jsfile =
  name :: string
  arrayBuffer :: bytes

text \<open>\<^verbatim>\<open>file.size\<close>: the number of bytes that \<^verbatim>\<open>file.arrayBuffer()\<close> returns.\<close>

definition file_size :: "jsfile \<Rightarrow> nat" where
  "file_size f = length (arrayBuffer f)"

definition CHUNK :: nat where
  "CHUNK = 64 * 1024"

record report =
  progress :: rat
  speed :: rat
  eta :: "rat option"

text \<open>
  The local variables of \<^verbatim>\<open>sendFileInChunks\<close> and what it has done so far: the frames
  given to \<^verbatim>\<open>dc.send\<close>, the calls of \<^verbatim>\<open>onProgress\<close> and of \<^verbatim>\<open>setStatus\<close>. \<open>calls\<close>
  counts the chunks sent: the chunk of index \<open>i\<close> takes the IV of the \<open>i\<close>-th call of
  \<^verbatim>\<open>crypto.getRandomValues\<close>, \<open>rng i\<close>, and reads the clock in the call of
  \<^verbatim>\<open>performance.now\<close> of index \<open>i + 1\<close>, \<open>clock (i + 1)\<close> (the call of index 0
  initialises \<^verbatim>\<open>lastTime\<close>).
\<close>

record sender =
  sent :: nat
  lastTime :: rat
  lastSent :: nat
  calls :: nat
  wire :: "frame list"
  reports :: "report list"
  statuses :: "status list"

definition meta_msg :: "('sk, 'pk) platform \<Rightarrow> jsfile \<Rightarrow> json \<Rightarrow> json" where
  "meta_msg P f myPubJwk =
     JObj [(''type'', JStr ''meta''), (''name'', JStr (name f)),
           (''size'', JNum (of_nat (file_size f))),
           (''hash'', JStr (sha256 P (arrayBuffer f))), (''ecdhPub'', myPubJwk)]"

text \<open>
  \<^verbatim>\<open>waitForPeerPubKey\<close> on the frames that arrive at the sender: the \<^verbatim>\<open>pub\<close> of the first
  \<^verbatim>\<open>ekey\<close> message with a truthy \<^verbatim>\<open>pub\<close>; \<open>None\<close> when there is none and the promise never
  resolves.
\<close>

fun waitForPeerPubKey :: "frame list \<Rightarrow> json option" where
  "waitForPeerPubKey [] = None"
| "waitForPeerPubKey (Text (Some msg) # fs) =
     (if field msg ''type'' = Some (JStr ''ekey'') \<and> truthy_opt (field msg ''pub'')
      then field msg ''pub'' else waitForPeerPubKey fs)"
| "waitForPeerPubKey (f # fs) = waitForPeerPubKey fs"

text \<open>\<^verbatim>\<open>value.subarray(begin, end)\<close> for \<open>begin \<le> end \<le> length value\<close>.\<close>

definition subarray :: "bytes \<Rightarrow> nat \<Rightarrow> nat \<Rightarrow> bytes" where
  "subarray val b e = take (e - b) (drop b val)"

text \<open>The two consecutive sends for one slice: the header, then the ciphertext.\<close>

definition chunk_frames :: "('sk, 'pk) platform \<Rightarrow> bytes \<Rightarrow> bytes \<Rightarrow> bytes \<Rightarrow> frame list" where
  "chunk_frames P k iv piece =
     (let (ivArray, ct) = aesGcmEncrypt P k iv piece
      in [Text (Some (chunk_msg ivArray (length ct))), Binary ct])"

text \<open>The body of the inner loop for one piece.\<close>

definition send_slice ::
  "('sk, 'pk) platform \<Rightarrow> bytes \<Rightarrow> (nat \<Rightarrow> bytes) \<Rightarrow> (nat \<Rightarrow> rat) \<Rightarrow> nat \<Rightarrow> bytes \<Rightarrow> sender \<Rightarrow> sender" where
  "send_slice P k rng clock tot piece s =
     (let s1 = s\<lparr> wire := wire s @ chunk_frames P k (rng (calls s)) piece,
                  sent := sent s + length piece,
                  calls := Suc (calls s) \<rparr>;
          now = clock (Suc (calls s))
      in if now - lastTime s1 \<ge> 500
         then (let deltaBytes = of_nat (sent s1) - of_nat (lastSent s1);
                   deltaSec = (now - lastTime s1) / 1000;
                   sp = deltaBytes / deltaSec;
                   remaining = of_nat tot - of_nat (sent s1);
                   et = (if sp > 0 then Some (remaining / sp) else None)
               in s1\<lparr> reports := reports s1 @
                          [\<lparr> progress = (of_nat (sent s1) / of_nat tot) * 100,
                             speed = sp, eta = et \<rparr>],
                       lastTime := now,
                       lastSent := sent s1 \<rparr>)
         else s1)"

text \<open>The inner loop over one value read from the stream.\<close>

function chunk_loop ::
  "('sk, 'pk) platform \<Rightarrow> bytes \<Rightarrow> (nat \<Rightarrow> bytes) \<Rightarrow> (nat \<Rightarrow> rat) \<Rightarrow> nat \<Rightarrow> bytes \<Rightarrow> nat \<Rightarrow> sender \<Rightarrow> sender" where
  "chunk_loop P k rng clock tot val offset s =
     (if offset < length val
      then (let piece = subarray val offset (min (offset + CHUNK) (length val))
            in chunk_loop P k rng clock tot val (offset + length piece)
                 (send_slice P k rng clock tot piece s))
      else s)"
  by pat_completeness auto
termination
  by (relation "measure (\<lambda>(P, k, rng, clock, tot, val, offset, s). length val - offset)")
     (auto simp: subarray_def CHUNK_def)

declare chunk_loop.simps [simp del]

text \<open>
  The outer loop; \<open>reads\<close> are the values that \<^verbatim>\<open>reader.read()\<close> returns before it
  reports \<^verbatim>\<open>done\<close>. How the stream of a blob cuts its bytes into reads is the
  browser's choice.
\<close>

fun read_loop ::
  "('sk, 'pk) platform \<Rightarrow> bytes \<Rightarrow> (nat \<Rightarrow> bytes) \<Rightarrow> (nat \<Rightarrow> rat) \<Rightarrow> nat \<Rightarrow> bytes list \<Rightarrow> sender \<Rightarrow> sender" where
  "read_loop P k rng clock tot [] s = s"
| "read_loop P k rng clock tot (val # rest) s =
     read_loop P k rng clock tot rest (chunk_loop P k rng clock tot val 0 s)"

datatype outcome = Completed | Stalled | Rejected error

text \<open>
  \<^verbatim>\<open>sendFileInChunks\<close>, with the key pair that \<^verbatim>\<open>generateECDH\<close> returned and the frames
  \<open>inbox\<close> that arrive from the peer after the \<^verbatim>\<open>meta\<close> frame was sent. The channel is
  open: \<^verbatim>\<open>dc.send\<close> does not throw.
\<close>

definition sendFileInChunks ::
  "('sk, 'pk) platform \<Rightarrow> 'sk \<times> 'pk \<Rightarrow> jsfile \<Rightarrow> frame list \<Rightarrow> bytes list \<Rightarrow> (nat \<Rightarrow> bytes) \<Rightarrow> (nat \<Rightarrow> rat)
     \<Rightarrow> outcome \<times> sender" where
  "sendFileInChunks P keyPair f inbox reads rng clock =
     (let myPubJwk = exportPubKeyJwk P (snd keyPair);
          s1 = \<lparr> sent = 0, lastTime = 0, lastSent = 0, calls = 0,
                 wire = [Text (Some (meta_msg P f myPubJwk))], reports = [],
                 statuses = [CalculatingFileHash, WaitingForReceiverKey] \<rparr>
      in case waitForPeerPubKey inbox of
           None \<Rightarrow> (Stalled, s1)
         | Some peerPubJwk \<Rightarrow>
             (case importPubKeyJwk P (Some peerPubJwk) of
                Inl e \<Rightarrow> (Rejected e, s1)
              | Inr peerPubKey \<Rightarrow>
                  (let k = deriveAesKey P (fst keyPair) peerPubKey;
                       s2 = s1\<lparr> lastTime := clock 0,
                                statuses := statuses s1 @ [SendingEncrypted] \<rparr>;
                       s3 = read_loop P k rng clock (file_size f) reads s2
                   in (Completed,
                       s3\<lparr> wire := wire s3 @ [Text (Some end_msg)],
                           reports := reports s3 @ [\<lparr> progress = 100, speed = 0, eta = Some 0 \<rparr>],
                           statuses := statuses s3 @ [CompletedEncrypted] \<rparr>))))"

section \<open>A session\<close>

text \<open>
  Both programs on one ordered channel. The sender first emits \<^verbatim>\<open>meta\<close> and waits: until
  the receiver has replied, the handler of \<^verbatim>\<open>meta\<close> is the only one in the receiver's loop
  and goes through its three awaits. The sender then gets what the receiver sent, and
  every further frame it emits joins the receiver's queue in the order sent; from there
  the receiver's loop takes its turns as the schedule says. The result is how the sender
  ended, the sender's state and the receiver's loop.
\<close>

definition session ::
  "('sk, 'pk) platform \<Rightarrow> 'sk \<times> 'pk \<Rightarrow> 'sk \<times> 'pk \<Rightarrow> jsfile \<Rightarrow> bytes list \<Rightarrow> (nat \<Rightarrow> bytes) \<Rightarrow> (nat \<Rightarrow> rat)
     \<Rightarrow> turn list \<Rightarrow> outcome \<times> sender \<times> ('sk, 'pk) loop" where
  "session P senderKeys receiverKeys f reads rng clock sched =
     (let metaFrame = Text (Some (meta_msg P f (exportPubKeyJwk P (snd senderKeys))));
          l0 = \<lparr> rcv = bind receiverKeys, queue = [metaFrame], suspended = [], rejected = [] \<rparr>;
          l1 = event_loop P l0 [Dispatch, Resume 0, Resume 0, Resume 0];
          (out, s) = sendFileInChunks P senderKeys f (outbox (rcv l1)) reads rng clock
      in (out, s, event_loop P (l1\<lparr> queue := queue l1 @ tl (wire s) \<rparr>) sched))"

section \<open>A small platform\<close>

text \<open>
  An instance of the platform on which the definitions can be run: keys are bytes, the
  public key of \<open>a\<close> is \<open>3 * a\<close> and the shared bits of \<open>a\<close> and \<open>B\<close> are \<open>a * B\<close>; a
  ciphertext is a tag byte over key, IV and plaintext followed by the shifted plaintext;
  the digest of the empty input is the SHA-256 digest of the empty input,
  \<^verbatim>\<open>e3b0c442 98fc1c14 9afbf4c8 996fb924 27ae41e4 649b934c a495991b 7852b855\<close>.
\<close>

definition sha256_empty :: bytes where
  "sha256_empty =
     [227, 176, 196, 66, 152, 252, 28, 20, 154, 251, 244, 200, 153, 111, 185, 36,
      39, 174, 65, 228, 100, 155, 147, 76, 164, 149, 153, 27, 120, 82, 184, 85]"

definition toy_digest :: "bytes \<Rightarrow> bytes" where
  "toy_digest bs = map (\<lambda>b. b + sum_list bs + of_nat (length bs)) sha256_empty"

definition toy_encrypt :: "bytes \<Rightarrow> bytes \<Rightarrow> bytes \<Rightarrow> bytes" where
  "toy_encrypt k iv pt = (sum_list k + sum_list iv + sum_list pt) # map (\<lambda>b. b + sum_list k) pt"

definition toy_decrypt :: "bytes \<Rightarrow> bytes \<Rightarrow> bytes \<Rightarrow> bytes option" where
  "toy_decrypt k iv ct =
     (case ct of
        [] \<Rightarrow> None
      | t # body \<Rightarrow>
          (let pt = map (\<lambda>b. b - sum_list k) body
           in if t = sum_list k + sum_list iv + sum_list pt then Some pt else None))"

definition toy_export :: "byte \<Rightarrow> json" where
  "toy_export pk = JObj [(''kty'', JStr ''EC''), (''x'', JNum (of_nat (unat pk)))]"

fun toy_import :: "json option \<Rightarrow> error + byte" where
  "toy_import (Some (JObj [(a, JStr b), (c, JNum q)])) =
     (if a = ''kty'' \<and> b = ''EC'' \<and> c = ''x'' then Inr (to_uint8 (JNum q)) else Inl DataError)"
| "toy_import (Some (JObj kvs)) = Inl DataError"
| "toy_import v = Inl TypeError"

definition toy :: "(byte, byte) platform" where
  "toy = \<lparr> exportKey = toy_export, importKey = toy_import,
           deriveBits = (\<lambda>a B. [a * B]), digest = toy_digest,
           encrypt = toy_encrypt, decrypt = toy_decrypt,
           u8other = (\<lambda>x. Inr []), ratio = (\<lambda>n x. None) \<rparr>"

definition toy_keys :: "byte \<Rightarrow> byte \<times> byte" where
  "toy_keys a = (a, 3 * a)"

definition iv12 :: "nat \<Rightarrow> bytes" where
  "iv12 i = replicate 11 0 @ [of_nat i]"

section \<open>Notions used to state the properties\<close>

text \<open>The \<^verbatim>\<open>meta\<close> messages among the frames of a sequence, in order.\<close>

fun metas :: "frame list \<Rightarrow> json list" where
  "metas [] = []"
| "metas (Text (Some msg) # fs) =
     (if field msg ''type'' = Some (JStr ''meta'') then msg # metas fs else metas fs)"
| "metas (f # fs) = metas fs"

text \<open>
  Cutting a buffer into pieces of 64 KiB of which only the last may be shorter; the empty
  buffer has no piece.
\<close>

function split64 :: "bytes \<Rightarrow> bytes list" where
  "split64 v = (if v = [] then [] else take CHUNK v # split64 (drop CHUNK v))"
  by pat_completeness auto
termination
  by (relation "measure length") (auto simp: CHUNK_def)

declare split64.simps [simp del]

text \<open>The frames for a list of pieces, the piece of index \<open>i\<close> with the IV \<open>rng (n + i)\<close>.\<close>

fun frames_of :: "('sk, 'pk) platform \<Rightarrow> bytes \<Rightarrow> (nat \<Rightarrow> bytes) \<Rightarrow> nat \<Rightarrow> bytes list \<Rightarrow> frame list" where
  "frames_of P k rng n [] = []"
| "frames_of P k rng n (p # ps) = chunk_frames P k (rng n) p @ frames_of P k rng (Suc n) ps"

text \<open>The running byte counts after each piece, starting from \<open>n\<close>.\<close>

fun totals :: "nat \<Rightarrow> bytes list \<Rightarrow> nat list" where
  "totals n [] = []"
| "totals n (p # ps) = (n + length p) # totals (n + length p) ps"

text \<open>
  Measures on the receiver's loop. \<open>plen\<close> is the number of plaintext bytes a settled
  decryption delivers and \<open>gain\<close> the number of bytes a suspended handler will add to the
  byte counter when it is resumed. \<open>pot\<close> bounds what the frames still in the queue can
  add, when they are dispatched from the stashed header \<open>h\<close> under the key \<open>key\<close>. A
  suspended handler is \<open>quiet\<close> when it is not a handler of \<^verbatim>\<open>meta\<close>.
\<close>

fun plen :: "error + bytes \<Rightarrow> nat" where
  "plen (Inl e) = 0"
| "plen (Inr pt) = length pt"

fun gain :: "'pk cont \<Rightarrow> nat" where
  "gain (AwaitDecrypt x) = plen x"
| "gain c = 0"

fun quiet :: "'pk cont \<Rightarrow> bool" where
  "quiet (AwaitImport x) = False"
| "quiet (AwaitDerive k) = False"
| "quiet (AwaitExport j) = False"
| "quiet c = True"

fun pot :: "('sk, 'pk) platform \<Rightarrow> bytes option \<Rightarrow> json option \<Rightarrow> frame list \<Rightarrow> nat" where
  "pot P key h [] = 0"
| "pot P key h (Binary ct # q) =
     (if truthy_opt h then plen (aesGcmDecrypt P key (optfield h ''iv'') ct) else 0) + pot P key h q"
| "pot P key h (Text (Some msg) # q) =
     (if field msg ''type'' = Some (JStr ''chunk'') then pot P key (Some msg) q else pot P key h q)"
| "pot P key h (Text None # q) = pot P key h q"

text \<open>
  The state of the loop while the chunks of a file of \<open>S\<close> bytes arrive: the metadata \<open>m\<close>
  and the key \<open>k\<close> stay, the bytes counted, those the suspended handlers will add and
  those the queue can still add are at most \<open>S\<close> together, and the progress values
  reported so far are numbers that do not decrease and do not exceed the share of the
  bytes counted.
\<close>

definition steady :: "('sk, 'pk) platform \<Rightarrow> bytes \<Rightarrow> json \<Rightarrow> nat \<Rightarrow> ('sk, 'pk) loop \<Rightarrow> bool" where
  "steady P k m S s \<longleftrightarrow>
     meta (rcv s) = Some m \<and> aesKey (rcv s) = Some k \<and> metas (queue s) = [] \<and>
     list_all quiet (suspended s) \<and>
     receivedBytes (rcv s) + sum_list (map gain (suspended s)) +
       pot P (Some k) (pendingChunkInfo (rcv s)) (queue s) \<le> S \<and>
     list_all (\<lambda>q. q \<noteq> None) (progressLog (rcv s)) \<and>
     sorted (map the (progressLog (rcv s))) \<and>
     list_all (\<lambda>q. the q \<le> (of_nat (receivedBytes (rcv s)) / of_nat S) * 100) (progressLog (rcv s)) \<and>
     (S = 0 \<longrightarrow> progressLog (rcv s) = [])"

text \<open>Equality of strings up to the case of the letters A to Z.\<close>

definition lower :: "char \<Rightarrow> char" where
  "lower c = (case map_of (zip ''ABCDEFGHIJKLMNOPQRSTUVWXYZ'' ''abcdefghijklmnopqrstuvwxyz'') c of
                None \<Rightarrow> c | Some d \<Rightarrow> d)"

definition same_ignoring_case :: "string \<Rightarrow> string \<Rightarrow> bool" where
  "same_ignoring_case a b = (map lower a = map lower b)"

text \<open>The property names of an object, in order.\<close>

fun keys_of :: "json \<Rightarrow> string list" where
  "keys_of (JObj kvs) = map fst kvs"
| "keys_of v = []"

text \<open>
  The progress values reported so far do not decrease and none exceeds the share of the
  bytes sent so far.
\<close>

definition reports_ok :: "nat \<Rightarrow> sender \<Rightarrow> bool" where
  "reports_ok tot s \<longleftrightarrow>
     sorted (map progress (reports s)) \<and>
     list_all (\<lambda>rp. progress rp \<le> (of_nat (sent s) / of_nat tot) * 100) (reports s)"

section \<open>Example inputs\<close>

definition demo_file :: jsfile where
  "demo_file = \<lparr> name = ''a.bin'', arrayBuffer = [1, 2, 3, 4, 5] \<rparr>"

definition empty_file :: jsfile where
  "empty_file = \<lparr> name = ''empty.bin'', arrayBuffer = [] \<rparr>"

definition big_file :: jsfile where
  "big_file = \<lparr> name = ''big.bin'', arrayBuffer = replicate 150000 0 \<rparr>"

text \<open>A file of 150000 bytes that the stream delivers in reads of 100000 and 50000 bytes.\<close>

definition unaligned_reads :: "bytes list" where
  "unaligned_reads = [replicate 100000 0, replicate 50000 0]"

definition demo_clock :: "nat \<Rightarrow> rat" where
  "demo_clock i = of_nat i * 600"

text \<open>
  The sender has the key pair \<open>toy_keys 5\<close> and the receiver \<open>toy_keys 7\<close>; this is the
  key both derive.
\<close>

definition demo_key :: bytes where
  "demo_key = deriveAesKey toy 7 15"

definition demo_meta :: json where
  "demo_meta = meta_msg toy demo_file (toy_export 15)"

definition demo_header :: json where
  "demo_header = chunk_msg (array_from (iv12 0)) 4"

text \<open>The ciphertext of the chunk \<open>[1, 2, 3]\<close> with its second byte overwritten.\<close>

definition demo_bad_body :: bytes where
  "demo_bad_body = list_update (toy_encrypt demo_key (iv12 0) [1, 2, 3]) 1 0"

definition tampered :: "frame list" where
  "tampered =
     [Text (Some demo_meta),
      Text (Some demo_header),
      Binary demo_bad_body,
      Text (Some (chunk_msg (array_from (iv12 1)) 3)),
      Binary (toy_encrypt demo_key (iv12 1) [4, 5])]"

text \<open>The digest of the empty input in upper case, and a \<^verbatim>\<open>meta\<close> message that carries it.\<close>

definition upper_hash :: string where
  "upper_hash = ''E3B0C44298FC1C149AFBF4C8996FB92427AE41E4649B934CA495991B7852B855''"

definition upper_meta :: json where
  "upper_meta = JObj [(''type'', JStr ''meta''), (''name'', JStr ''empty.bin''), (''size'', JNum 0),
                      (''hash'', JStr upper_hash), (''ecdhPub'', toy_export 15)]"

text \<open>
  A schedule for the two chunks of \<open>demo_file\<close>: the first header and body are dispatched
  and the first decryption settles; then the second header, the second body and \<^verbatim>\<open>end\<close>
  are dispatched one after the other, and only then does the second decryption settle,
  followed by the two awaits of the \<^verbatim>\<open>end\<close> handler.
\<close>

definition end_early :: "turn list" where
  "end_early = [Dispatch, Dispatch, Resume 0, Dispatch, Dispatch, Dispatch, Resume 0, Resume 0, Resume 0]"

section \<open>Properties of the receiver\<close>

lemma run_Nil [simp]: "run P r [] = r"
  by (simp add: run_def)

lemma run_Cons [simp]: "run P r (f # fs) = run P (deliver P r f) fs"
  by (simp add: run_def)

lemma run_append: "run P r (fs @ gs) = run P (run P r fs) gs"
  by (simp add: run_def)

lemma truthy_field_type [simp]: "field msg ''type'' = Some v \<Longrightarrow> truthy msg"
  by (cases msg) simp_all

lemma to_uint8_of_byte: "to_uint8 (JNum (of_nat (unat b))) = b"
proof -
  have e: "(of_nat (unat b) :: rat) = of_int (uint b)"
    by simp
  show ?thesis
    unfolding e
    by (simp only: to_uint8.simps floor_of_int of_int_0_le_iff uint_ge_0 if_True word_of_int_uint)
qed

lemma to_uint8_unsigned: "to_uint8 (JNum (unsigned b)) = b"
  using to_uint8_of_byte[of b] by (simp only: of_nat_unat)

lemma newUint8Array_array_from: "newUint8Array P (Some (array_from iv)) = Inr iv"
proof -
  have "map to_uint8 (map (\<lambda>b. JNum (of_nat (unat b))) iv) = iv"
    by (induction iv) (simp_all only: list.map to_uint8_of_byte)
  moreover have "list_all is_number (map (\<lambda>b. JNum (of_nat (unat b))) iv)"
    by (induction iv) simp_all
  ultimately show ?thesis
    by (simp only: newUint8Array_def array_from_def option.case json.case if_True)
qed

lemma accept_header:
  "accept P (r\<lparr> pendingChunkInfo := h, expectingBinary := e \<rparr>) pt = accept P r pt"
  by (simp add: accept_def Let_def split: option.splits)

lemma run_chunk_frames:
  assumes "aesKey r = Some k" and "decrypt P k iv (encrypt P k iv pt) = Some pt"
  shows "run P r (chunk_frames P k iv pt) = accept P r pt"
  using assms
  by (simp add: chunk_frames_def aesGcmEncrypt_def chunk_msg_def deliver_def on_chunk_def
      on_binary_def aesGcmDecrypt_def newUint8Array_array_from accept_header)

lemma raised_chunk_frames:
  assumes "aesKey r = Some k" and "decrypt P k iv (encrypt P k iv pt) = Some pt"
  shows "raised P r (chunk_frames P k iv pt) = []"
  using assms
  by (simp add: chunk_frames_def aesGcmEncrypt_def chunk_msg_def deliver_def on_chunk_def
      on_binary_def aesGcmDecrypt_def newUint8Array_array_from accept_header)

lemma raised_append: "raised P r (fs @ gs) = raised P r fs @ raised P (run P r fs) gs"
  by (induction fs arbitrary: r) simp_all

lemma accept_fields [simp]:
  "aesKey (accept P r pt) = aesKey r"
  "meta (accept P r pt) = meta r"
  "chunks (accept P r pt) = chunks r @ [pt]"
  "urlLog (accept P r pt) = urlLog r"
  "statusLog (accept P r pt) = statusLog r"
  "outbox (accept P r pt) = outbox r"
  "receivedBytes (accept P r pt) = receivedBytes r + length pt"
  by (simp_all add: accept_def Let_def split: option.splits)

lemma foldl_accept_fields:
  "aesKey (foldl (accept P) r ps) = aesKey r"
  "meta (foldl (accept P) r ps) = meta r"
  "chunks (foldl (accept P) r ps) = chunks r @ ps"
  "urlLog (foldl (accept P) r ps) = urlLog r"
  "statusLog (foldl (accept P) r ps) = statusLog r"
  "outbox (foldl (accept P) r ps) = outbox r"
  "receivedBytes (foldl (accept P) r ps) = receivedBytes r + length (concat ps)"
  by (induction ps arbitrary: r) simp_all

lemma run_frames_of:
  assumes "\<forall>iv pt. decrypt P k iv (encrypt P k iv pt) = Some pt"
  shows "aesKey r = Some k \<Longrightarrow>
         run P r (frames_of P k rng n ps) = foldl (accept P) r ps \<and> raised P r (frames_of P k rng n ps) = []"
proof (induction ps arbitrary: r n)
  case Nil
  then show ?case by simp
next
  case (Cons p ps)
  have a: "run P r (chunk_frames P k (rng n) p) = accept P r p"
    using Cons.prems assms by (simp add: run_chunk_frames)
  have b: "raised P r (chunk_frames P k (rng n) p) = []"
    using Cons.prems assms by (simp add: raised_chunk_frames)
  have "aesKey (accept P r p) = Some k"
    using Cons.prems by simp
  from Cons.IH[OF this] show ?case
    by (simp add: run_append raised_append a b)
qed

lemma progressLog_accept:
  assumes "optfield (meta r) ''size'' = Some (JNum (of_nat S))"
  shows "progressLog (accept P r pt) =
           progressLog r @ (if S = 0 then [] else [Some (of_nat (receivedBytes r + length pt) / of_nat S * 100)])"
  using assms by (simp add: accept_def Let_def percent_def)

lemma progressLog_foldl_accept:
  assumes "optfield (meta r) ''size'' = Some (JNum (of_nat S))"
  shows "progressLog (foldl (accept P) r ps) =
           progressLog r @ (if S = 0 then []
                            else map (\<lambda>n. Some (of_nat n / of_nat S * 100)) (totals (receivedBytes r) ps))"
  using assms
proof (induction ps arbitrary: r)
  case Nil
  then show ?case by simp
next
  case (Cons p ps)
  have "optfield (meta (accept P r p)) ''size'' = Some (JNum (of_nat S))"
    using Cons.prems by simp
  from Cons.IH[OF this] show ?case
    using Cons.prems by (simp add: progressLog_accept)
qed

lemma totals_bound: "t \<in> set (totals n ps) \<Longrightarrow> n \<le> t \<and> t \<le> n + length (concat ps)"
  by (induction ps arbitrary: n) fastforce+

lemma totals_sorted: "sorted (totals n ps)"
proof (induction ps arbitrary: n)
  case Nil
  then show ?case by simp
next
  case (Cons p ps)
  have "\<forall>t \<in> set (totals (n + length p) ps). n + length p \<le> t"
    using totals_bound by blast
  then show ?case using Cons by simp
qed

lemma totals_last: "ps \<noteq> [] \<Longrightarrow> last (totals n ps) = n + length (concat ps)"
proof (induction ps arbitrary: n)
  case Nil
  then show ?case by simp
next
  case (Cons p ps)
  then show ?case by (cases ps) simp_all
qed

lemma totals_Nil [simp]: "totals n ps = [] \<longleftrightarrow> ps = []"
  by (cases ps) simp_all


lemma meta_deliver:
  "meta (deliver P r f) = (if metas [f] = [] then meta r else Some (last (metas [f])))"
proof (cases f)
  case (Text j)
  then show ?thesis
    by (cases j)
       (simp_all add: deliver_def on_meta_def on_chunk_def on_end_def verify_def Let_def split: sum.splits)
next
  case (Binary b)
  then show ?thesis
    by (simp add: deliver_def on_binary_def split: sum.splits)
qed

lemma metas_Cons: "metas (f # fs) = metas [f] @ metas fs"
proof (cases f)
  case (Text j)
  then show ?thesis by (cases j) simp_all
next
  case (Binary b)
  then show ?thesis by simp
qed

lemma deliver_meta:
  assumes "importKey P (field msg ''ecdhPub'') = Inr pk" and "field msg ''type'' = Some (JStr ''meta'')"
    and "printable_opt (field msg ''name'')" and "printable_opt (field msg ''size'')"
  shows "onmessage P r (Text (Some msg)) =
           (None, r\<lparr> meta := Some msg,
                     statusLog := statusLog r @ [Receiving (field msg ''name'') (field msg ''size'')],
                     aesKey := Some (deriveAesKey P (fst (myKeys r)) pk),
                     outbox := outbox r @ [Text (Some (ekey_msg (exportKey P (snd (myKeys r)))))] \<rparr>)"
  using assms
  by (simp add: on_meta_def status_of_meta_def importPubKeyJwk_def exportPubKeyJwk_def Let_def)


section \<open>Properties of the sender\<close>

lemma send_slice_fields:
  "wire (send_slice P k rng clock tot p s) = wire s @ chunk_frames P k (rng (calls s)) p"
  "calls (send_slice P k rng clock tot p s) = Suc (calls s)"
  "sent (send_slice P k rng clock tot p s) = sent s + length p"
  "statuses (send_slice P k rng clock tot p s) = statuses s"
  by (simp_all add: send_slice_def Let_def)

lemma subarray_take: "subarray val offset (min (offset + CHUNK) (length val)) = take CHUNK (drop offset val)"
  by (simp add: subarray_def min_def)

lemma chunk_loop_unfold:
  "offset < length val \<Longrightarrow>
   chunk_loop P k rng clock tot val offset s =
     chunk_loop P k rng clock tot val (offset + length (take CHUNK (drop offset val)))
       (send_slice P k rng clock tot (take CHUNK (drop offset val)) s)"
  by (subst chunk_loop.simps) (simp add: subarray_take Let_def del: length_take)

lemma chunk_loop_done: "\<not> offset < length val \<Longrightarrow> chunk_loop P k rng clock tot val offset s = s"
  by (subst chunk_loop.simps) simp

lemma split64_drop:
  "offset < length val \<Longrightarrow>
   split64 (drop offset val) =
     take CHUNK (drop offset val) # split64 (drop (offset + length (take CHUNK (drop offset val))) val)"
proof -
  assume a: "offset < length val"
  have d: "drop (offset + length (take CHUNK (drop offset val))) val = drop CHUNK (drop offset val)"
    by (simp add: min_def add.commute)
  have ne: "drop offset val \<noteq> []" using a by simp
  show ?thesis
    unfolding d using ne by (subst split64.simps) simp
qed

lemma chunk_loop_wire:
  "wire (chunk_loop P k rng clock tot val offset s) = wire s @ frames_of P k rng (calls s) (split64 (drop offset val))
   \<and> calls (chunk_loop P k rng clock tot val offset s) = calls s + length (split64 (drop offset val))
   \<and> sent (chunk_loop P k rng clock tot val offset s) = sent s + (length val - offset)
   \<and> statuses (chunk_loop P k rng clock tot val offset s) = statuses s"
proof (induction P k rng clock tot val offset s rule: chunk_loop.induct)
  case (1 P k rng clock tot val offset s)
  show ?case
  proof (cases "offset < length val")
    case True
    define p where "p = take CHUNK (drop offset val)"
    define s' where "s' = send_slice P k rng clock tot p s"
    define o' where "o' = offset + length p"
    have ih: "wire (chunk_loop P k rng clock tot val o' s') = wire s' @ frames_of P k rng (calls s') (split64 (drop o' val))
   \<and> calls (chunk_loop P k rng clock tot val o' s') = calls s' + length (split64 (drop o' val))
   \<and> sent (chunk_loop P k rng clock tot val o' s') = sent s' + (length val - o')
   \<and> statuses (chunk_loop P k rng clock tot val o' s') = statuses s'"
      unfolding s'_def o'_def p_def
      using "1.IH"[OF True refl] unfolding subarray_take .
    have unf: "chunk_loop P k rng clock tot val offset s = chunk_loop P k rng clock tot val o' s'"
      unfolding s'_def o'_def p_def using True by (rule chunk_loop_unfold)
    have sp: "split64 (drop offset val) = p # split64 (drop o' val)"
      unfolding o'_def p_def using True by (rule split64_drop)
    have len: "length p + (length val - o') = length val - offset"
      unfolding o'_def p_def using True by (simp add: min_def)
    have s': "wire s' = wire s @ chunk_frames P k (rng (calls s)) p" "calls s' = Suc (calls s)"
      "sent s' = sent s + length p" "statuses s' = statuses s"
      unfolding s'_def by (simp_all add: send_slice_fields)
    show ?thesis
      unfolding unf sp using ih len by (simp add: s')
  next
    case False
    then show ?thesis
      by (simp add: chunk_loop_done split64.simps)
  qed
qed

lemma frames_of_append:
  "frames_of P k rng n (xs @ ys) = frames_of P k rng n xs @ frames_of P k rng (n + length xs) ys"
  by (induction xs arbitrary: n) simp_all

lemma read_loop_wire:
  "wire (read_loop P k rng clock tot reads s) = wire s @ frames_of P k rng (calls s) (concat (map split64 reads))
   \<and> calls (read_loop P k rng clock tot reads s) = calls s + length (concat (map split64 reads))
   \<and> sent (read_loop P k rng clock tot reads s) = sent s + length (concat reads)
   \<and> statuses (read_loop P k rng clock tot reads s) = statuses s"
proof (induction reads arbitrary: s)
  case Nil
  then show ?case by simp
next
  case (Cons v reads)
  from chunk_loop_wire[of P k rng clock tot v 0 s] Cons[of "chunk_loop P k rng clock tot v 0 s"]
  show ?case by (simp add: frames_of_append)
qed

lemma split64_concat: "concat (split64 v) = v"
proof (induction v rule: split64.induct)
  case (1 v)
  then show ?case by (subst split64.simps) simp
qed

lemma split64_sizes: "p \<in> set (split64 v) \<Longrightarrow> p \<noteq> [] \<and> length p \<le> CHUNK"
proof (induction v rule: split64.induct)
  case (1 v)
  show ?case
  proof (cases "v = []")
    case True
    with "1.prems" show ?thesis by (simp add: split64.simps)
  next
    case False
    with "1.prems" have "p = take CHUNK v \<or> p \<in> set (split64 (drop CHUNK v))"
      by (subst (asm) split64.simps) simp
    then show ?thesis
      using "1.IH"[OF False] False by (auto simp: CHUNK_def)
  qed
qed

lemma split64_full: "p \<in> set (butlast (split64 v)) \<Longrightarrow> length p = CHUNK"
proof (induction v rule: split64.induct)
  case (1 v)
  show ?case
  proof (cases "v = []")
    case True
    with "1.prems" show ?thesis by (simp add: split64.simps)
  next
    case False
    then have sp: "split64 v = take CHUNK v # split64 (drop CHUNK v)"
      by (subst split64.simps) simp
    show ?thesis
    proof (cases "split64 (drop CHUNK v) = []")
      case True
      with "1.prems" sp show ?thesis by simp
    next
      case ne: False
      then have "drop CHUNK v \<noteq> []"
        by (auto simp: split64.simps)
      then have full: "length (take CHUNK v) = CHUNK" by simp
      from "1.prems" sp ne have "p = take CHUNK v \<or> p \<in> set (butlast (split64 (drop CHUNK v)))"
        by simp
      then show ?thesis using full "1.IH"[OF False] by blast
    qed
  qed
qed

lemma pieces_concat: "concat (concat (map split64 reads)) = concat reads"
  by (induction reads) (simp_all add: split64_concat)

lemma split64_Nil: "split64 [] = []"
  by (simp add: split64.simps)

lemma pct_mono: "a \<le> b \<Longrightarrow> (of_nat a / of_nat tot) * (100::rat) \<le> (of_nat b / of_nat tot) * 100"
  by (simp add: divide_right_mono)

lemma send_slice_reports_ok:
  assumes "reports_ok tot s"
  shows "reports_ok tot (send_slice P k rng clock tot p s)"
proof -
  have le: "(of_nat (sent s) / of_nat tot) * (100::rat) \<le> (of_nat (sent s + length p) / of_nat tot) * 100"
    by (rule pct_mono) simp
  have old: "list_all (\<lambda>rp. progress rp \<le> (of_nat (sent s + length p) / of_nat tot) * 100) (reports s)"
    using assms le unfolding reports_ok_def list_all_iff by (meson order_trans)
  have srt: "sorted (map progress (reports s))"
    using assms by (simp add: reports_ok_def)
  show ?thesis
    using old srt
    by (simp add: reports_ok_def send_slice_def Let_def sorted_append list_all_iff)
qed

lemma chunk_loop_reports_ok:
  "reports_ok tot s \<Longrightarrow> reports_ok tot (chunk_loop P k rng clock tot val offset s)"
proof (induction P k rng clock tot val offset s rule: chunk_loop.induct)
  case (1 P k rng clock tot val offset s)
  show ?case
  proof (cases "offset < length val")
    case True
    have a: "reports_ok tot (send_slice P k rng clock tot (take CHUNK (drop offset val)) s)"
      using "1.prems" by (rule send_slice_reports_ok)
    have step: "reports_ok tot (chunk_loop P k rng clock tot val (offset + length (take CHUNK (drop offset val)))
       (send_slice P k rng clock tot (take CHUNK (drop offset val)) s))"
      using "1.IH"[OF True refl, unfolded subarray_take] a by blast
    show ?thesis
      by (subst chunk_loop_unfold[OF True]) (rule step)
  next
    case False
    then show ?thesis using "1.prems" by (simp add: chunk_loop_done)
  qed
qed

lemma read_loop_reports_ok:
  "reports_ok tot s \<Longrightarrow> reports_ok tot (read_loop P k rng clock tot reads s)"
  by (induction reads arbitrary: s) (simp_all add: chunk_loop_reports_ok)

lemma waitForPeerPubKey_ekey:
  "truthy j \<Longrightarrow> waitForPeerPubKey (Text (Some (ekey_msg j)) # fs) = Some j"
  by (simp add: ekey_msg_def)

lemma meta_msg_fields:
  "field (meta_msg P f j) ''type'' = Some (JStr ''meta'')"
  "field (meta_msg P f j) ''name'' = Some (JStr (name f))"
  "field (meta_msg P f j) ''size'' = Some (JNum (of_nat (file_size f)))"
  "field (meta_msg P f j) ''hash'' = Some (JStr (sha256 P (arrayBuffer f)))"
  "field (meta_msg P f j) ''ecdhPub'' = Some j"
  by (simp_all add: meta_msg_def)

lemma sendFileInChunks_completed:
  assumes "waitForPeerPubKey inbox = Some jwk" and "importKey P (Some jwk) = Inr pk"
  shows "fst (sendFileInChunks P keyPair f inbox reads rng clock) = Completed"
    and "wire (snd (sendFileInChunks P keyPair f inbox reads rng clock)) =
           Text (Some (meta_msg P f (exportKey P (snd keyPair)))) #
           frames_of P (deriveAesKey P (fst keyPair) pk) rng 0 (concat (map split64 reads)) @
           [Text (Some end_msg)]"
  using assms
  by (simp_all add: sendFileInChunks_def importPubKeyJwk_def exportPubKeyJwk_def Let_def read_loop_wire)

lemma end_msg_type: "field end_msg ''type'' = Some (JStr ''end'')"
  by (simp add: end_msg_def)

lemma sender_reports:
  assumes "waitForPeerPubKey inbox = Some jwk" and "importKey P (Some jwk) = Inr pk"
    and "concat reads = arrayBuffer f"
  shows "sorted (map progress (reports (snd (sendFileInChunks P keyPair f inbox reads rng clock))))
       \<and> list_all (\<lambda>rp. progress rp \<le> 100) (reports (snd (sendFileInChunks P keyPair f inbox reads rng clock)))
       \<and> reports (snd (sendFileInChunks P keyPair f inbox reads rng clock)) \<noteq> []
       \<and> progress (last (reports (snd (sendFileInChunks P keyPair f inbox reads rng clock)))) = 100"
proof -
  define k where "k = deriveAesKey P (fst keyPair) pk"
  define s2 where "s2 = \<lparr> sent = 0, lastTime = clock 0, lastSent = 0, calls = 0,
                 wire = [Text (Some (meta_msg P f (exportKey P (snd keyPair))))], reports = [],
                 statuses = [CalculatingFileHash, WaitingForReceiverKey, SendingEncrypted] \<rparr>"
  define s3 where "s3 = read_loop P k rng clock (file_size f) reads s2"
  have "reports_ok (file_size f) s2"
    by (simp add: reports_ok_def s2_def)
  then have ok: "reports_ok (file_size f) s3"
    unfolding s3_def by (rule read_loop_reports_ok)
  have "sent s3 = file_size f"
    using read_loop_wire[of P k rng clock "file_size f" reads s2] assms(3)
    by (simp add: s3_def s2_def file_size_def)
  then have b: "list_all (\<lambda>rp. progress rp \<le> 100) (reports s3)"
    using ok unfolding reports_ok_def list_all_iff by (cases "file_size f = 0") auto
  have srt: "sorted (map progress (reports s3))"
    using ok by (simp add: reports_ok_def)
  have rep: "reports (snd (sendFileInChunks P keyPair f inbox reads rng clock)) =
               reports s3 @ [\<lparr> progress = 100, speed = 0, eta = Some 0 \<rparr>]"
    using assms(1,2)
    by (simp add: sendFileInChunks_def importPubKeyJwk_def exportPubKeyJwk_def Let_def s3_def s2_def k_def)
  show ?thesis
    unfolding rep using b srt by (simp add: sorted_append list_all_iff)
qed

lemma sorted_map_mono:
  fixes g :: "nat \<Rightarrow> rat"
  assumes "\<And>a b. a \<le> b \<Longrightarrow> g a \<le> g b"
  shows "sorted ts \<Longrightarrow> sorted (map g ts)"
  by (induction ts) (auto intro: assms)

lemma pct_sorted: "sorted ts \<Longrightarrow> sorted (map (\<lambda>n. (of_nat n / of_nat S) * (100::rat)) ts)"
  by (rule sorted_map_mono) (rule pct_mono)


section \<open>Properties of the event loop\<close>

lemma handler_uninterrupted:
  assumes "suspended s = []" and "queue s = f # fs"
  shows "event_loop P s [Dispatch, Resume 0, Resume 0, Resume 0] =
           s\<lparr> rcv := snd (onmessage P (rcv s) f), queue := fs,
              rejected := rejected s @ thrown (fst (onmessage P (rcv s) f)) \<rparr>"
proof (cases s)
  case (fields r q cs es)
  with assms have q: "q = f # fs" and cs: "cs = []" by simp_all
  show ?thesis
  proof (cases f)
    case (Binary ct)
    show ?thesis
    proof (cases "truthy_opt (pendingChunkInfo r)")
      case False
      then show ?thesis
        unfolding fields q cs Binary by (simp add: event_loop_def on_binary_def)
    next
      case True
      then show ?thesis
        unfolding fields q cs Binary
        by (cases "aesGcmDecrypt P (aesKey r) (optfield (pendingChunkInfo r) ''iv'') ct")
           (simp_all add: event_loop_def on_binary_def)
    qed
  next
    case (Text j)
    show ?thesis
    proof (cases j)
      case None
      show ?thesis
        unfolding fields q cs Text None by (simp add: event_loop_def)
    next
      case (Some msg)
      consider (falsy) "\<not> truthy msg"
        | (meta) "field msg ''type'' = Some (JStr ''meta'')"
        | (chunk) "field msg ''type'' = Some (JStr ''chunk'')"
        | (ending) "field msg ''type'' = Some (JStr ''end'')"
        | (other) "truthy msg" "field msg ''type'' \<noteq> Some (JStr ''meta'')"
            "field msg ''type'' \<noteq> Some (JStr ''chunk'')" "field msg ''type'' \<noteq> Some (JStr ''end'')"
        by blast
      then show ?thesis
      proof cases
        case falsy
        then show ?thesis
          unfolding fields q cs Text Some by (simp add: event_loop_def)
      next
        case meta
        show ?thesis
        proof (cases "status_of_meta msg")
          case (Inl e)
          with meta show ?thesis
            unfolding fields q cs Text Some by (simp add: event_loop_def on_meta_def)
        next
          case (Inr st)
          with meta show ?thesis
            unfolding fields q cs Text Some
            by (cases "importPubKeyJwk P (field msg ''ecdhPub'')")
               (simp_all add: event_loop_def on_meta_def Let_def)
        qed
      next
        case chunk
        then show ?thesis
          unfolding fields q cs Text Some by (simp add: event_loop_def on_chunk_def)
      next
        case ending
        then show ?thesis
          unfolding fields q cs Text Some by (simp add: event_loop_def on_end_def Let_def)
      next
        case other
        then show ?thesis
          unfolding fields q cs Text Some by (simp add: event_loop_def)
      qed
    qed
  qed
qed

lemma event_loop_append: "event_loop P s (a @ b) = event_loop P (event_loop P s a) b"
  by (simp add: event_loop_def)

lemma serial_Cons: "serial (f # fs) = [Dispatch, Resume 0, Resume 0, Resume 0] @ serial fs"
  by (simp add: serial_def)

lemma serial_run:
  "suspended s = [] \<Longrightarrow>
   event_loop P s (serial (queue s)) =
     s\<lparr> rcv := run P (rcv s) (queue s), queue := [],
        rejected := rejected s @ raised P (rcv s) (queue s) \<rparr>"
proof (induction "queue s" arbitrary: s)
  case Nil
  then show ?case by (simp add: serial_def event_loop_def)
next
  case (Cons f fs)
  define s' where "s' = s\<lparr> rcv := snd (onmessage P (rcv s) f), queue := fs,
              rejected := rejected s @ thrown (fst (onmessage P (rcv s) f)) \<rparr>"
  have h: "event_loop P s [Dispatch, Resume 0, Resume 0, Resume 0] = s'"
    unfolding s'_def using Cons.prems Cons.hyps(2)[symmetric] by (rule handler_uninterrupted)
  have q': "fs = queue s'" and c': "suspended s' = []"
    using Cons.prems by (simp_all add: s'_def)
  have ih: "event_loop P s' (serial (queue s')) =
     s'\<lparr> rcv := run P (rcv s') (queue s'), queue := [],
        rejected := rejected s' @ raised P (rcv s') (queue s') \<rparr>"
    using Cons.hyps(1)[OF q' c'] .
  have th: "thrown e = (case e of None \<Rightarrow> [] | Some x \<Rightarrow> [x])" for e :: "error option"
    by (cases e) simp_all
  show ?case
    unfolding Cons.hyps(2)[symmetric] serial_Cons event_loop_append h
    using ih unfolding q'[symmetric]
    by (simp add: s'_def deliver_def th)
qed

lemma pot_None_le: "pot P key None q \<le> pot P key h q"
proof (induction q arbitrary: h)
  case Nil
  then show ?case by simp
next
  case (Cons f q)
  show ?case
  proof (cases f)
    case (Binary ct)
    then show ?thesis using Cons[of h] by simp
  next
    case (Text j)
    then show ?thesis using Cons[of h] by (cases j) simp_all
  qed
qed

lemma gain_remove:
  "i < length cs \<Longrightarrow> sum_list (map gain (replace_at cs i None)) + gain (cs ! i) = sum_list (map gain cs)"
proof -
  assume a: "i < length cs"
  have "cs = take i cs @ cs ! i # drop (Suc i) cs"
    using a by (simp add: id_take_nth_drop)
  then have "sum_list (map gain cs) = sum_list (map gain (take i cs @ cs ! i # drop (Suc i) cs))"
    by simp
  then show ?thesis by simp
qed

lemma gain_replace:
  "i < length cs \<Longrightarrow> gain c = gain (cs ! i) \<Longrightarrow>
   sum_list (map gain (replace_at cs i (Some c))) = sum_list (map gain cs)"
proof -
  assume a: "i < length cs" and g: "gain c = gain (cs ! i)"
  have "map gain (cs[i := c]) = (map gain cs)[i := gain (cs ! i)]"
    using g by (simp add: map_update)
  also have "\<dots> = map gain cs"
    using a by (simp add: list_update_same_conv)
  finally show ?thesis by simp
qed

lemma quiet_remove: "list_all quiet cs \<Longrightarrow> list_all quiet (replace_at cs i None)"
  by (auto simp: list_all_iff dest: in_set_takeD in_set_dropD)

lemma quiet_replace: "list_all quiet cs \<Longrightarrow> quiet c \<Longrightarrow> list_all quiet (replace_at cs i (Some c))"
  by (auto simp: list_all_iff dest: set_update_subset_insert[THEN subsetD])

lemma verify_fields [simp]:
  "meta (verify r b h) = meta r"
  "aesKey (verify r b h) = aesKey r"
  "receivedBytes (verify r b h) = receivedBytes r"
  "pendingChunkInfo (verify r b h) = pendingChunkInfo r"
  "progressLog (verify r b h) = progressLog r"
  "chunks (verify r b h) = chunks r"
  by (simp_all add: verify_def)

lemma pendingChunkInfo_accept [simp]: "pendingChunkInfo (accept P r pt) = None"
  by (simp add: accept_def Let_def split: option.splits)

lemma steady_dispatch:
  assumes st: "steady P k m S s"
  shows "steady P k m S (step P s Dispatch)"
proof (cases "queue s")
  case Nil
  then show ?thesis using st by simp
next
  case (Cons f fs)
  show ?thesis
  proof (cases f)
    case (Binary ct)
    show ?thesis
      using st unfolding steady_def
      by (auto simp add: Cons Binary)
  next
    case (Text j)
    show ?thesis
    proof (cases j)
      case None
      show ?thesis
        using st unfolding steady_def by (simp add: Cons Text None)
    next
      case (Some msg)
      have nm: "field msg ''type'' \<noteq> Some (JStr ''meta'')"
        using st unfolding steady_def by (auto simp add: Cons Text Some split: if_splits)
      have mq: "metas fs = []"
        using st nm unfolding steady_def by (simp add: Cons Text Some)
      have nt: "\<not> truthy msg \<Longrightarrow> field msg ''type'' \<noteq> Some (JStr ''chunk'')"
        by (cases msg) simp_all
      show ?thesis
        using st nm mq nt unfolding steady_def
        by (auto simp add: Cons Text Some)
    qed
  qed
qed

lemma steady_resume:
  assumes sz: "field m ''size'' = Some (JNum (of_nat S))" and st: "steady P k m S s"
  shows "steady P k m S (step P s (Resume i))"
proof (cases "i < length (suspended s)")
  case False
  then show ?thesis using st by simp
next
  case True
  define r where "r = rcv s"
  define cs where "cs = suspended s"
  define c where "c = cs ! i"
  have i: "i < length cs" using True by (simp add: cs_def)
  have qc: "quiet c"
    using st i unfolding steady_def c_def cs_def by (simp add: list_all_length)
  have qa: "list_all quiet cs"
    using st unfolding steady_def cs_def by simp
  have m: "meta r = Some m" and key: "aesKey r = Some k" and mq: "metas (queue s) = []"
    using st unfolding steady_def r_def by simp_all
  have phi: "receivedBytes r + sum_list (map gain cs) + pot P (Some k) (pendingChunkInfo r) (queue s) \<le> S"
    using st unfolding steady_def r_def cs_def by simp
  have pl: "list_all (\<lambda>q. q \<noteq> None) (progressLog r)" "sorted (map the (progressLog r))"
    "list_all (\<lambda>q. the q \<le> (of_nat (receivedBytes r) / of_nat S) * 100) (progressLog r)"
    "S = 0 \<longrightarrow> progressLog r = []"
    using st unfolding steady_def r_def by simp_all
  show ?thesis
  proof (cases c)
    case (AwaitImport x)
    with qc show ?thesis by simp
  next
    case (AwaitDerive x)
    with qc show ?thesis by simp
  next
    case (AwaitExport x)
    with qc show ?thesis by simp
  next
    case (AwaitBuffer b)
    have g: "sum_list (map gain (replace_at cs i (Some (AwaitDigest b (sha256 P b))))) = sum_list (map gain cs)"
      using i by (rule gain_replace) (simp add: c_def[symmetric] AwaitBuffer)
    have q: "list_all quiet (replace_at cs i (Some (AwaitDigest b (sha256 P b))))"
      using qa by (rule quiet_replace) simp
    have stp: "step P s (Resume i) =
                 s\<lparr> rcv := r, suspended := replace_at cs i (Some (AwaitDigest b (sha256 P b))),
                    rejected := rejected s @ [] \<rparr>"
      using True AwaitBuffer by (simp add: r_def cs_def c_def)
    show ?thesis
      unfolding stp steady_def using m key mq phi pl g q by simp
  next
    case (AwaitDigest b h)
    have g: "sum_list (map gain (replace_at cs i None)) = sum_list (map gain cs)"
      using gain_remove[OF i] by (simp add: c_def[symmetric] AwaitDigest)
    have q: "list_all quiet (replace_at cs i None)"
      using qa by (rule quiet_remove)
    have stp: "step P s (Resume i) =
                 s\<lparr> rcv := verify r b h, suspended := replace_at cs i None,
                    rejected := rejected s @ [] \<rparr>"
      using True AwaitDigest by (simp add: r_def cs_def c_def)
    show ?thesis
      unfolding stp steady_def using m key mq phi pl g q by simp
  next
    case (AwaitDecrypt x)
    show ?thesis
    proof (cases x)
      case (Inl e)
      have g: "sum_list (map gain (replace_at cs i None)) = sum_list (map gain cs)"
        using gain_remove[OF i] by (simp add: c_def[symmetric] AwaitDecrypt Inl)
      have q: "list_all quiet (replace_at cs i None)"
        using qa by (rule quiet_remove)
      have stp: "step P s (Resume i) =
                 s\<lparr> rcv := r, suspended := replace_at cs i None,
                    rejected := rejected s @ [e] \<rparr>"
        using True AwaitDecrypt Inl by (simp add: r_def cs_def c_def)
      show ?thesis
        unfolding stp steady_def using m key mq phi pl g q by simp
    next
      case (Inr pt)
      define r' where "r' = accept P r pt"
      have g: "sum_list (map gain (replace_at cs i None)) + length pt = sum_list (map gain cs)"
        using gain_remove[OF i] by (simp add: c_def[symmetric] AwaitDecrypt Inr)
      have q: "list_all quiet (replace_at cs i None)"
        using qa by (rule quiet_remove)
      have stp: "step P s (Resume i) =
                 s\<lparr> rcv := r', suspended := replace_at cs i None,
                    rejected := rejected s @ [] \<rparr>"
        using True AwaitDecrypt Inr by (simp add: r_def cs_def c_def r'_def)
      have m': "meta r' = Some m" and key': "aesKey r' = Some k"
        and rb': "receivedBytes r' = receivedBytes r + length pt"
        and pc': "pendingChunkInfo r' = None"
        by (simp_all add: r'_def m key)
      have potle: "pot P (Some k) None (queue s) \<le> pot P (Some k) (pendingChunkInfo r) (queue s)"
        by (rule pot_None_le)
      have phi': "receivedBytes r' + sum_list (map gain (replace_at cs i None)) +
                    pot P (Some k) (pendingChunkInfo r') (queue s) \<le> S"
        using phi g potle unfolding rb' pc' by linarith
      have szr: "optfield (meta r) ''size'' = Some (JNum (of_nat S))"
        by (simp add: m sz)
      have plr: "progressLog r' =
                   progressLog r @ (if S = 0 then []
                                    else [Some (of_nat (receivedBytes r + length pt) / of_nat S * 100)])"
        unfolding r'_def by (rule progressLog_accept[OF szr])
      have le: "(of_nat (receivedBytes r) / of_nat S) * (100::rat) \<le>
                (of_nat (receivedBytes r + length pt) / of_nat S) * 100"
        by (rule pct_mono) simp
      have old: "list_all (\<lambda>q. the q \<le> (of_nat (receivedBytes r + length pt) / of_nat S) * 100) (progressLog r)"
        using pl(3) le unfolding list_all_iff by (meson order_trans)
      have pl': "list_all (\<lambda>q. q \<noteq> None) (progressLog r')" "sorted (map the (progressLog r'))"
        "list_all (\<lambda>q. the q \<le> (of_nat (receivedBytes r') / of_nat S) * 100) (progressLog r')"
        "S = 0 \<longrightarrow> progressLog r' = []"
        using pl old unfolding plr rb'
        by (simp_all add: sorted_append list_all_iff del: times_divide_eq_left)
      show ?thesis
        unfolding stp steady_def using m' key' mq phi' pl' q by simp
    qed
  qed
qed

lemma steady_step:
  assumes "field m ''size'' = Some (JNum (of_nat S))" and "steady P k m S s"
  shows "steady P k m S (step P s t)"
proof (cases t)
  case Dispatch
  then show ?thesis using steady_dispatch[OF assms(2)] by simp
next
  case (Resume i)
  then show ?thesis using steady_resume[OF assms] by simp
qed

lemma steady_event_loop:
  assumes "field m ''size'' = Some (JNum (of_nat S))"
  shows "steady P k m S s \<Longrightarrow> steady P k m S (event_loop P s sched)"
proof (induction sched arbitrary: s)
  case Nil
  then show ?case by (simp add: event_loop_def)
next
  case (Cons t sched)
  have "steady P k m S (step P s t)"
    using assms Cons.prems by (rule steady_step)
  from Cons.IH[OF this] show ?case
    by (simp add: event_loop_def)
qed

lemma pot_chunk_frames:
  assumes "decrypt P k iv (encrypt P k iv p) = Some p"
  shows "pot P (Some k) h (chunk_frames P k iv p @ q) =
           length p + pot P (Some k) (Some (chunk_msg (array_from iv) (length (encrypt P k iv p)))) q"
  using assms
  by (simp add: chunk_frames_def aesGcmEncrypt_def chunk_msg_def aesGcmDecrypt_def
      newUint8Array_array_from)

lemma pot_frames_of:
  assumes "\<forall>iv pt. decrypt P k iv (encrypt P k iv pt) = Some pt"
  shows "pot P (Some k) h (frames_of P k rng n ps @ [Text (Some end_msg)]) = length (concat ps)"
proof (induction ps arbitrary: h n)
  case Nil
  then show ?case by (simp add: end_msg_def)
next
  case (Cons p ps)
  have "decrypt P k (rng n) (encrypt P k (rng n) p) = Some p"
    using assms by simp
  then show ?case
    using Cons by (simp add: pot_chunk_frames)
qed

lemma metas_append: "metas (fs @ gs) = metas fs @ metas gs"
proof (induction fs)
  case Nil
  then show ?case by simp
next
  case (Cons f fs)
  then show ?case
    using metas_Cons[of f "fs @ gs"] metas_Cons[of f fs] by simp
qed

lemma metas_frames_of: "metas (frames_of P k rng n ps @ [Text (Some end_msg)]) = []"
proof (induction ps arbitrary: n)
  case Nil
  then show ?case by (simp add: end_msg_def)
next
  case (Cons p ps)
  have "metas (chunk_frames P k (rng n) p) = []"
    by (simp add: chunk_frames_def aesGcmEncrypt_def chunk_msg_def)
  then show ?case
    using Cons by (simp add: metas_append)
qed

section \<open>Properties of a session between an honest sender and the receiver\<close>

lemma handshake:
  assumes "importKey P (Some (exportKey P (snd senderKeys))) = Inr (snd senderKeys)"
  shows "event_loop P
           \<lparr> rcv = bind receiverKeys,
             queue = [Text (Some (meta_msg P f (exportKey P (snd senderKeys))))],
             suspended = [], rejected = [] \<rparr>
           [Dispatch, Resume 0, Resume 0, Resume 0] =
         \<lparr> rcv = (bind receiverKeys)
                   \<lparr> meta := Some (meta_msg P f (exportKey P (snd senderKeys))),
                     statusLog := [WaitingForMetadata,
                                   Receiving (Some (JStr (name f))) (Some (JNum (of_nat (file_size f))))],
                     aesKey := Some (deriveAesKey P (fst receiverKeys) (snd senderKeys)),
                     outbox := [Text (Some (ekey_msg (exportKey P (snd receiverKeys))))] \<rparr>,
           queue = [], suspended = [], rejected = [] \<rparr>"
proof -
  define m where "m = meta_msg P f (exportKey P (snd senderKeys))"
  define l0 where "l0 = \<lparr> rcv = bind receiverKeys, queue = [Text (Some m)],
                          suspended = [], rejected = [] \<rparr>"
  have e: "importKey P (field m ''ecdhPub'') = Inr (snd senderKeys)"
    and t: "field m ''type'' = Some (JStr ''meta'')"
    and p: "printable_opt (field m ''name'')" "printable_opt (field m ''size'')"
    by (simp_all add: m_def meta_msg_fields assms)
  have om: "onmessage P (rcv l0) (Text (Some m)) =
              (None, (rcv l0)\<lparr> meta := Some m,
                     statusLog := statusLog (rcv l0) @ [Receiving (field m ''name'') (field m ''size'')],
                     aesKey := Some (deriveAesKey P (fst (myKeys (rcv l0))) (snd senderKeys)),
                     outbox := outbox (rcv l0) @ [Text (Some (ekey_msg (exportKey P (snd (myKeys (rcv l0))))))] \<rparr>)"
    by (rule deliver_meta[OF e t p])
  have "event_loop P l0 [Dispatch, Resume 0, Resume 0, Resume 0] =
          l0\<lparr> rcv := snd (onmessage P (rcv l0) (Text (Some m))), queue := [],
              rejected := rejected l0 @ thrown (fst (onmessage P (rcv l0) (Text (Some m)))) \<rparr>"
    by (rule handler_uninterrupted) (simp_all add: l0_def)
  then show ?thesis
    unfolding om unfolding l0_def m_def
    by (simp add: bind_def meta_msg_fields)
qed

lemma honest_session:
  assumes aead: "\<forall>k iv pt. decrypt P k iv (encrypt P k iv pt) = Some pt"
    and ecdh: "deriveBits P (fst senderKeys) (snd receiverKeys) = deriveBits P (fst receiverKeys) (snd senderKeys)"
    and imp_s: "importKey P (Some (exportKey P (snd senderKeys))) = Inr (snd senderKeys)"
    and imp_r: "importKey P (Some (exportKey P (snd receiverKeys))) = Inr (snd receiverKeys)"
    and jwk: "truthy (exportKey P (snd receiverKeys))"
    and reads: "concat reads = arrayBuffer f"
  shows "session P senderKeys receiverKeys f reads rng clock sched =
           (Completed,
            snd (sendFileInChunks P senderKeys f
                   [Text (Some (ekey_msg (exportKey P (snd receiverKeys))))] reads rng clock),
            event_loop P
              \<lparr> rcv = (bind receiverKeys)
                   \<lparr> meta := Some (meta_msg P f (exportKey P (snd senderKeys))),
                     statusLog := [WaitingForMetadata,
                                   Receiving (Some (JStr (name f))) (Some (JNum (of_nat (file_size f))))],
                     aesKey := Some (deriveAesKey P (fst senderKeys) (snd receiverKeys)),
                     outbox := [Text (Some (ekey_msg (exportKey P (snd receiverKeys))))] \<rparr>,
                queue = frames_of P (deriveAesKey P (fst senderKeys) (snd receiverKeys)) rng 0
                          (concat (map split64 reads)) @ [Text (Some end_msg)],
                suspended = [], rejected = [] \<rparr>
              sched)"
proof -
  define inbox where "inbox = [Text (Some (ekey_msg (exportKey P (snd receiverKeys))))]"
  define res where "res = sendFileInChunks P senderKeys f inbox reads rng clock"
  have k: "deriveAesKey P (fst receiverKeys) (snd senderKeys) =
           deriveAesKey P (fst senderKeys) (snd receiverKeys)"
    by (simp add: deriveAesKey_def ecdh)
  have w: "waitForPeerPubKey inbox = Some (exportKey P (snd receiverKeys))"
    unfolding inbox_def using jwk by (rule waitForPeerPubKey_ekey)
  have out: "fst res = Completed"
    unfolding res_def by (rule sendFileInChunks_completed(1)[OF w imp_r])
  have wire: "tl (wire (snd res)) =
                frames_of P (deriveAesKey P (fst senderKeys) (snd receiverKeys)) rng 0
                  (concat (map split64 reads)) @ [Text (Some end_msg)]"
    unfolding res_def by (simp add: sendFileInChunks_completed(2)[OF w imp_r])
  show ?thesis
  proof (cases res)
    case (Pair out' s)
    with out wire show ?thesis
      unfolding session_def exportPubKeyJwk_def handshake[OF imp_s] Let_def
      by (simp add: k inbox_def[symmetric] res_def[symmetric])
  qed
qed

lemma honest_steady:
  assumes aead: "\<forall>k iv pt. decrypt P k iv (encrypt P k iv pt) = Some pt"
    and ecdh: "deriveBits P (fst senderKeys) (snd receiverKeys) = deriveBits P (fst receiverKeys) (snd senderKeys)"
    and imp_s: "importKey P (Some (exportKey P (snd senderKeys))) = Inr (snd senderKeys)"
    and imp_r: "importKey P (Some (exportKey P (snd receiverKeys))) = Inr (snd receiverKeys)"
    and jwk: "truthy (exportKey P (snd receiverKeys))"
    and reads: "concat reads = arrayBuffer f"
  shows "case session P senderKeys receiverKeys f reads rng clock sched of
           (out, s, l) \<Rightarrow>
             out = Completed \<and>
             s = snd (sendFileInChunks P senderKeys f
                        [Text (Some (ekey_msg (exportKey P (snd receiverKeys))))] reads rng clock) \<and>
             steady P (deriveAesKey P (fst senderKeys) (snd receiverKeys))
               (meta_msg P f (exportKey P (snd senderKeys))) (file_size f) l"
proof -
  define k where "k = deriveAesKey P (fst senderKeys) (snd receiverKeys)"
  define m where "m = meta_msg P f (exportKey P (snd senderKeys))"
  define ps where "ps = concat (map split64 reads)"
  define l2 where "l2 = \<lparr> rcv = (bind receiverKeys)
                   \<lparr> meta := Some m,
                     statusLog := [WaitingForMetadata,
                                   Receiving (Some (JStr (name f))) (Some (JNum (of_nat (file_size f))))],
                     aesKey := Some k,
                     outbox := [Text (Some (ekey_msg (exportKey P (snd receiverKeys))))] \<rparr>,
                queue = frames_of P k rng 0 ps @ [Text (Some end_msg)],
                suspended = [], rejected = [] \<rparr>"
  have aead_k: "\<forall>iv pt. decrypt P k iv (encrypt P k iv pt) = Some pt"
    using aead by simp
  have len: "length (concat ps) = file_size f"
    by (simp add: ps_def pieces_concat reads file_size_def)
  have st2: "steady P k m (file_size f) l2"
    unfolding steady_def l2_def
    by (simp add: bind_def metas_frames_of pot_frames_of[OF aead_k] len)
  have sz: "field m ''size'' = Some (JNum (of_nat (file_size f)))"
    by (simp add: m_def meta_msg_fields)
  have "steady P k m (file_size f) (event_loop P l2 sched)"
    using sz st2 by (rule steady_event_loop)
  then show ?thesis
    unfolding honest_session[OF assms] k_def m_def ps_def l2_def by simp
qed

lemma serial_round_trip:
  assumes aead: "\<forall>k iv pt. decrypt P k iv (encrypt P k iv pt) = Some pt"
    and ecdh: "deriveBits P (fst senderKeys) (snd receiverKeys) = deriveBits P (fst receiverKeys) (snd senderKeys)"
    and imp_s: "importKey P (Some (exportKey P (snd senderKeys))) = Inr (snd senderKeys)"
    and imp_r: "importKey P (Some (exportKey P (snd receiverKeys))) = Inr (snd receiverKeys)"
    and jwk: "truthy (exportKey P (snd receiverKeys))"
    and reads: "concat reads = arrayBuffer f"
  shows "case session P senderKeys receiverKeys f reads rng clock
                (serial (frames_of P (deriveAesKey P (fst senderKeys) (snd receiverKeys)) rng 0
                           (concat (map split64 reads)) @ [Text (Some end_msg)])) of
           (out, s, l) \<Rightarrow>
             out = Completed \<and> queue l = [] \<and> suspended l = [] \<and> rejected l = [] \<and>
             concat (chunks (rcv l)) = arrayBuffer f \<and>
             urlLog (rcv l) = [arrayBuffer f] \<and> last (statusLog (rcv l)) = CompletedIntegrityOK"
proof -
  define k where "k = deriveAesKey P (fst senderKeys) (snd receiverKeys)"
  define m where "m = meta_msg P f (exportKey P (snd senderKeys))"
  define ps where "ps = concat (map split64 reads)"
  define r1 where "r1 = (bind receiverKeys)
                   \<lparr> meta := Some m,
                     statusLog := [WaitingForMetadata,
                                   Receiving (Some (JStr (name f))) (Some (JNum (of_nat (file_size f))))],
                     aesKey := Some k,
                     outbox := [Text (Some (ekey_msg (exportKey P (snd receiverKeys))))] \<rparr>"
  define l2 where "l2 = \<lparr> rcv = r1, queue = frames_of P k rng 0 ps @ [Text (Some end_msg)],
                          suspended = [], rejected = [] \<rparr>"
  define r2 where "r2 = foldl (accept P) r1 ps"
  have aead_k: "\<forall>iv pt. decrypt P k iv (encrypt P k iv pt) = Some pt"
    using aead by simp
  have key1: "aesKey r1 = Some k" by (simp add: r1_def)
  have run2: "run P r1 (frames_of P k rng 0 ps) = r2" "raised P r1 (frames_of P k rng 0 ps) = []"
    using run_frames_of[OF aead_k key1] unfolding r2_def by simp_all
  have cps: "concat ps = arrayBuffer f"
    by (simp add: ps_def reads[symmetric] pieces_concat)
  have ch2: "chunks r2 = ps" and m2: "meta r2 = Some m" and u2: "urlLog r2 = []"
    by (simp_all add: r2_def foldl_accept_fields r1_def bind_def)
  have hash: "optfield (meta r2) ''hash'' = Some (JStr (sha256 P (concat (chunks r2))))"
    by (simp add: m2 ch2 cps m_def meta_msg_fields)
  define r3 where "r3 = r2\<lparr> urlLog := urlLog r2 @ [concat (chunks r2)],
                         statusLog := statusLog r2 @ [CompletedIntegrityOK] \<rparr>"
  have oe: "onmessage P r2 (Text (Some end_msg)) = (None, r3)"
    unfolding r3_def using hash by (simp add: end_msg_type on_end_def verify_def Let_def)
  have d2: "deliver P r2 (Text (Some end_msg)) = r3"
    unfolding deliver_def oe by simp
  have runall: "run P r1 (frames_of P k rng 0 ps @ [Text (Some end_msg)]) = r3"
    by (simp add: d2 run_append run2 del: onmessage.simps)
  have raisedall: "raised P r1 (frames_of P k rng 0 ps @ [Text (Some end_msg)]) = []"
    by (simp add: raised_append run2 oe del: onmessage.simps)
  have "event_loop P l2 (serial (queue l2)) =
          l2\<lparr> rcv := run P (rcv l2) (queue l2), queue := [],
              rejected := rejected l2 @ raised P (rcv l2) (queue l2) \<rparr>"
    by (rule serial_run) (simp add: l2_def)
  then have fin: "event_loop P l2 (serial (frames_of P k rng 0 ps @ [Text (Some end_msg)])) =
                    \<lparr> rcv = r3, queue = [], suspended = [], rejected = [] \<rparr>"
    by (simp add: l2_def runall raisedall)
  show ?thesis
    unfolding honest_session[OF assms]
    unfolding k_def[symmetric] m_def[symmetric] ps_def[symmetric] r1_def[symmetric] l2_def[symmetric] fin
    by (simp add: r3_def ch2 cps u2)
qed

section \<open>Properties of the small platform and of the example inputs\<close>

lemma toy_aead: "decrypt toy k iv (encrypt toy k iv pt) = Some pt"
  by (simp add: toy_def toy_encrypt_def toy_decrypt_def comp_def)

lemma toy_ecdh: "deriveBits toy (fst (toy_keys a)) (snd (toy_keys b)) = deriveBits toy (fst (toy_keys b)) (snd (toy_keys a))"
  by (simp add: toy_def toy_keys_def)

lemma toy_jwk: "importKey toy (Some (exportKey toy pk)) = Inr pk" "truthy (exportKey toy pk)"
  by (simp_all add: toy_def toy_export_def to_uint8_unsigned del: to_uint8.simps)

lemma toy_aead_all: "\<forall>k iv pt. decrypt toy k iv (encrypt toy k iv pt) = Some pt"
  by (simp add: toy_aead)

lemma sha_empty: "sha256 toy [] = ''e3b0c44298fc1c149afbf4c8996fb92427ae41e4649b934ca495991b7852b855''"
  by (simp add: sha256_def toy_def toy_digest_def sha256_empty_def hex2_def hexdigit_def)

lemma after_upper_meta: "deliver toy (bind (toy_keys 7)) (Text (Some upper_meta)) =
     (bind (toy_keys 7))\<lparr> meta := Some upper_meta,
        statusLog := [WaitingForMetadata, Receiving (Some (JStr ''empty.bin'')) (Some (JNum 0))],
        aesKey := Some (deriveAesKey toy 7 15),
        outbox := [Text (Some (ekey_msg (toy_export 21)))] \<rparr>"
proof -
  have t: "field upper_meta ''type'' = Some (JStr ''meta'')" 
    and e: "importKey toy (field upper_meta ''ecdhPub'') = Inr 15"
    and n: "field upper_meta ''name'' = Some (JStr ''empty.bin'')" "field upper_meta ''size'' = Some (JNum 0)"
    by (simp_all add: upper_meta_def toy_def toy_export_def)
  have p: "printable_opt (field upper_meta ''name'')" "printable_opt (field upper_meta ''size'')"
    by (simp_all add: n)
  show ?thesis
    unfolding deliver_def deliver_meta[OF e t p] n
    by (simp add: bind_def toy_keys_def toy_def)
qed

lemma split64_replicate:
  "0 < n \<Longrightarrow> split64 (replicate n x) = replicate (min CHUNK n) x # split64 (replicate (n - CHUNK) x)"
  by (subst split64.simps) simp

lemma unaligned_pieces:
  "concat (map split64 unaligned_reads) = [replicate 65536 0, replicate 34464 0, replicate 50000 0]"
  by (simp add: unaligned_reads_def split64_replicate CHUNK_def split64_Nil)

lemma after_demo_meta:
  "deliver toy (bind (toy_keys 7)) (Text (Some demo_meta)) =
     (bind (toy_keys 7))\<lparr> meta := Some demo_meta,
        statusLog := [WaitingForMetadata, Receiving (Some (JStr ''a.bin'')) (Some (JNum 5))],
        aesKey := Some demo_key,
        outbox := [Text (Some (ekey_msg (toy_export 21)))] \<rparr>"
proof -
  have t: "field demo_meta ''type'' = Some (JStr ''meta'')"
    and e: "importKey toy (field demo_meta ''ecdhPub'') = Inr 15"
    and n: "field demo_meta ''name'' = Some (JStr ''a.bin'')" "field demo_meta ''size'' = Some (JNum 5)"
    using toy_jwk(1)[of 15]
    by (simp_all add: demo_meta_def meta_msg_fields toy_def demo_file_def file_size_def)
  have p: "printable_opt (field demo_meta ''name'')" "printable_opt (field demo_meta ''size'')"
    by (simp_all add: n)
  show ?thesis
    unfolding deliver_def deliver_meta[OF e t p] n
    by (simp add: bind_def toy_keys_def toy_def demo_key_def)
qed

lemma after_demo_header:
  "run toy (bind (toy_keys 7)) [Text (Some demo_meta), Text (Some demo_header)] =
     (bind (toy_keys 7))\<lparr> meta := Some demo_meta,
        statusLog := [WaitingForMetadata, Receiving (Some (JStr ''a.bin'')) (Some (JNum 5))],
        aesKey := Some demo_key,
        outbox := [Text (Some (ekey_msg (toy_export 21)))],
        pendingChunkInfo := Some demo_header,
        expectingBinary := Some (JNum 4) \<rparr>"
proof -
  have t: "field demo_header ''type'' = Some (JStr ''chunk'')" "field demo_header ''len'' = Some (JNum 4)"
    by (simp_all add: demo_header_def chunk_msg_def)
  show ?thesis
    unfolding run_Cons run_Nil after_demo_meta
    by (simp add: deliver_def on_chunk_def t bind_def)
qed

lemma bad_body_rejected: "decrypt toy demo_key (iv12 0) demo_bad_body = None"
  by (simp add: demo_bad_body_def demo_key_def deriveAesKey_def toy_def toy_digest_def
      sha256_empty_def toy_encrypt_def toy_decrypt_def iv12_def)

lemma split64_small: "v \<noteq> [] \<Longrightarrow> length v \<le> CHUNK \<Longrightarrow> split64 v = [v]"
  by (subst split64.simps) (simp add: split64.simps)

lemma demo_pieces: "concat (map split64 [[1, 2, 3], [4, 5]]) = [[1, 2, 3], [4, 5 :: byte]]"
  by (simp add: split64_small CHUNK_def)

lemma demo_digests: "sha256 toy [1, 2, 3] \<noteq> sha256 toy [1, 2, 3, 4, 5]"
  by (simp add: sha256_def toy_def toy_digest_def sha256_empty_def hex2_def hexdigit_def)

lemma demo_digest_truthy: "sha256 toy [1, 2, 3, 4, 5] \<noteq> []"
  by (simp add: sha256_def toy_def toy_digest_def sha256_empty_def hex2_def hexdigit_def)

lemma demo_concat: "concat [[1, 2, 3], [4, 5]] = arrayBuffer demo_file"
  by (simp add: demo_file_def)

lemma demo_session:
  "session toy (toy_keys 5) (toy_keys 7) demo_file [[1, 2, 3], [4, 5]] iv12 demo_clock sched =
           (Completed,
            snd (sendFileInChunks toy (toy_keys 5) demo_file
                   [Text (Some (ekey_msg (exportKey toy (snd (toy_keys 7)))))] [[1, 2, 3], [4, 5]] iv12 demo_clock),
            event_loop toy
              \<lparr> rcv = (bind (toy_keys 7))
                   \<lparr> meta := Some (meta_msg toy demo_file (exportKey toy (snd (toy_keys 5)))),
                     statusLog := [WaitingForMetadata,
                                   Receiving (Some (JStr (name demo_file))) (Some (JNum (of_nat (file_size demo_file))))],
                     aesKey := Some (deriveAesKey toy (fst (toy_keys 5)) (snd (toy_keys 7))),
                     outbox := [Text (Some (ekey_msg (exportKey toy (snd (toy_keys 7)))))] \<rparr>,
                queue = frames_of toy (deriveAesKey toy (fst (toy_keys 5)) (snd (toy_keys 7))) iv12 0
                          (concat (map split64 [[1, 2, 3], [4, 5]])) @ [Text (Some end_msg)],
                suspended = [], rejected = [] \<rparr>
              sched)"
  by (rule honest_session[OF toy_aead_all toy_ecdh toy_jwk(1) toy_jwk(1) toy_jwk(2) demo_concat])

lemma empty_concat: "concat [] = arrayBuffer empty_file"
  by (simp add: empty_file_def)

section \<open>The claims\<close>

text \<open>
  C1 fails on the code. The file \<open>demo_file\<close> is sent by the honest sender, and every frame
  reaches the receiver unaltered and in the order sent; \<^verbatim>\<open>end\<close> is dispatched while the
  decryption of the last body has not settled yet. The handler of \<^verbatim>\<open>end\<close> builds its blob
  from the chunks pushed so far, without the last one: when every handler has ended the
  receiver holds both chunks, but its status is that of a failed integrity check and no
  download was produced, where the claim has the original bytes reproduced.
\<close>

theorem C1_end_before_last_chunk:
  "case session toy (toy_keys 5) (toy_keys 7) demo_file [[1, 2, 3], [4, 5]] iv12 demo_clock end_early of
     (out, s, l) \<Rightarrow>
       out = Completed \<and> queue l = [] \<and> suspended l = [] \<and> rejected l = [] \<and>
       chunks (rcv l) = [[1, 2, 3], [4, 5]] \<and>
       statusLog (rcv l) = [WaitingForMetadata, Receiving (Some (JStr ''a.bin'')) (Some (JNum 5)),
                            IntegrityCheckFailed] \<and>
       urlLog (rcv l) = []"
  unfolding demo_session demo_pieces
  using demo_digests demo_digest_truthy
  by (simp add: end_early_def event_loop_def chunk_frames_def aesGcmEncrypt_def chunk_msg_def
      end_msg_def aesGcmDecrypt_def newUint8Array_array_from toy_aead accept_def percent_def
      verify_def meta_msg_def bind_def demo_file_def file_size_def Let_def)

text \<open>
  C2, as stated, fails. The body of the first chunk was altered on the way: its
  decryption raises, but no status is set and nothing is aborted. The second chunk
  is accepted afterwards, so the receiver holds the second chunk alone.
\<close>

theorem C2_tampered_chunk_skipped:
  "raised toy (bind (toy_keys 7)) tampered = [OperationError]
   \<and> statusLog (run toy (bind (toy_keys 7)) tampered) =
       [WaitingForMetadata, Receiving (Some (JStr ''a.bin'')) (Some (JNum 5))]
   \<and> chunks (run toy (bind (toy_keys 7)) tampered) = [[4, 5]]"
  by (simp add: tampered_def demo_meta_def demo_header_def demo_bad_body_def demo_key_def
      demo_file_def bind_def toy_keys_def deliver_def meta_msg_def on_meta_def status_of_meta_def
      importPubKeyJwk_def exportPubKeyJwk_def deriveAesKey_def toy_def toy_export_def
      toy_digest_def sha256_empty_def chunk_msg_def on_chunk_def on_binary_def
      aesGcmDecrypt_def newUint8Array_array_from toy_encrypt_def toy_decrypt_def iv12_def
      accept_def percent_def file_size_def Let_def ekey_msg_def)

text \<open>
  C2, amended. When the decryption of a body fails to authenticate, the handler ends
  with the exception and leaves the state of the receiver as it was: the chunks, the byte
  counter, the stashed header, the status and the download are unchanged, and the frames
  that follow are handled as if the body had not arrived.
\<close>

theorem C2_decrypt_failure_keeps_state:
  assumes "truthy_opt (pendingChunkInfo r)" and "aesKey r = Some k"
    and "newUint8Array P (optfield (pendingChunkInfo r) ''iv'') = Inr iv"
    and "decrypt P k iv ct = None"
  shows "onmessage P r (Binary ct) = (Some OperationError, r)
         \<and> run P r (Binary ct # fs) = run P r fs"
  using assms by (simp add: on_binary_def deliver_def aesGcmDecrypt_def)

theorem C2_decrypt_failure_keeps_state_witness:
  "onmessage toy (run toy (bind (toy_keys 7)) [Text (Some demo_meta), Text (Some demo_header)])
     (Binary demo_bad_body) =
     (Some OperationError, run toy (bind (toy_keys 7)) [Text (Some demo_meta), Text (Some demo_header)])
   \<and> run toy (run toy (bind (toy_keys 7)) [Text (Some demo_meta), Text (Some demo_header)])
        (Binary demo_bad_body # [Text (Some end_msg)]) =
      run toy (run toy (bind (toy_keys 7)) [Text (Some demo_meta), Text (Some demo_header)])
        [Text (Some end_msg)]"
proof -
  have h1: "truthy_opt (pendingChunkInfo
              (run toy (bind (toy_keys 7)) [Text (Some demo_meta), Text (Some demo_header)]))"
    unfolding after_demo_header by (simp add: demo_header_def chunk_msg_def)
  have h2: "aesKey (run toy (bind (toy_keys 7)) [Text (Some demo_meta), Text (Some demo_header)]) =
              Some demo_key"
    unfolding after_demo_header by simp
  have h3: "newUint8Array toy (optfield (pendingChunkInfo
              (run toy (bind (toy_keys 7)) [Text (Some demo_meta), Text (Some demo_header)])) ''iv'') =
              Inr (iv12 0)"
    unfolding after_demo_header
    by (simp add: demo_header_def chunk_msg_def newUint8Array_array_from)
  show ?thesis
    by (rule C2_decrypt_failure_keeps_state[OF h1 h2 h3 bad_body_rejected])
qed

text \<open>
  C3, as stated, fails. The \<^verbatim>\<open>meta\<close> message carries the digest of the empty file in upper
  case, which differs from the digest the receiver computes in the case of letters only:
  at \<^verbatim>\<open>end\<close> the receiver reports a failed integrity check and produces no download.
\<close>

theorem C3_upper_case_hash_rejected:
  "same_ignoring_case upper_hash (sha256 toy [])
   \<and> statusLog (run toy (bind (toy_keys 7)) [Text (Some upper_meta), Text (Some end_msg)]) =
       [WaitingForMetadata, Receiving (Some (JStr ''empty.bin'')) (Some (JNum 0)), IntegrityCheckFailed]
   \<and> urlLog (run toy (bind (toy_keys 7)) [Text (Some upper_meta), Text (Some end_msg)]) = []"
proof -
  have a: "same_ignoring_case upper_hash (sha256 toy [])"
    unfolding sha_empty by (simp add: same_ignoring_case_def upper_hash_def lower_def)
  have h: "field upper_meta ''hash'' = Some (JStr upper_hash)"
    by (simp add: upper_meta_def)
  have ne: "upper_hash \<noteq> sha256 toy []"
    unfolding sha_empty by (simp add: upper_hash_def)
  have tr: "truthy (JStr upper_hash)"
    by (simp add: upper_hash_def)
  have b: "statusLog (run toy (bind (toy_keys 7)) [Text (Some upper_meta), Text (Some end_msg)]) =
       [WaitingForMetadata, Receiving (Some (JStr ''empty.bin'')) (Some (JNum 0)), IntegrityCheckFailed]
   \<and> urlLog (run toy (bind (toy_keys 7)) [Text (Some upper_meta), Text (Some end_msg)]) = []"
    unfolding run_Cons run_Nil after_upper_meta
    using ne tr
    by (simp add: deliver_def end_msg_type on_end_def verify_def h bind_def Let_def)
  show ?thesis
    using a b by blast
qed

text \<open>
  C3, amended. At \<^verbatim>\<open>end\<close> the receiver concatenates the chunks, computes the digest in
  lower-case hexadecimal and compares it with the truthy \<^verbatim>\<open>hash\<close> of \<^verbatim>\<open>meta\<close> for exact
  equality, case included. When they are equal the download is produced and the status
  is that of a completed transfer; when they differ the status is that of a failed
  integrity check and no download is produced.
\<close>

theorem C3_end_compares_exactly:
  assumes "field msg ''type'' = Some (JStr ''end'')"
    and "truthy_opt (optfield (meta r) ''hash'')"
  shows "onmessage P r (Text (Some msg)) =
           (None,
            if optfield (meta r) ''hash'' = Some (JStr (sha256 P (concat (chunks r))))
            then r\<lparr> urlLog := urlLog r @ [concat (chunks r)],
                    statusLog := statusLog r @ [CompletedIntegrityOK] \<rparr>
            else r\<lparr> statusLog := statusLog r @ [IntegrityCheckFailed] \<rparr>)"
  using assms by (auto simp add: on_end_def verify_def Let_def)

theorem C3_end_compares_exactly_witness:
  "onmessage toy (deliver toy (bind (toy_keys 7)) (Text (Some upper_meta))) (Text (Some end_msg)) =
     (None,
      if optfield (meta (deliver toy (bind (toy_keys 7)) (Text (Some upper_meta)))) ''hash'' =
           Some (JStr (sha256 toy (concat (chunks (deliver toy (bind (toy_keys 7)) (Text (Some upper_meta)))))))
      then (deliver toy (bind (toy_keys 7)) (Text (Some upper_meta)))
             \<lparr> urlLog := urlLog (deliver toy (bind (toy_keys 7)) (Text (Some upper_meta))) @
                           [concat (chunks (deliver toy (bind (toy_keys 7)) (Text (Some upper_meta))))],
               statusLog := statusLog (deliver toy (bind (toy_keys 7)) (Text (Some upper_meta))) @
                              [CompletedIntegrityOK] \<rparr>
      else (deliver toy (bind (toy_keys 7)) (Text (Some upper_meta)))
             \<lparr> statusLog := statusLog (deliver toy (bind (toy_keys 7)) (Text (Some upper_meta))) @
                              [IntegrityCheckFailed] \<rparr>)"
proof -
  have h: "truthy_opt (optfield (meta (deliver toy (bind (toy_keys 7)) (Text (Some upper_meta)))) ''hash'')"
    unfolding after_upper_meta by (simp add: upper_meta_def upper_hash_def)
  show ?thesis
    by (rule C3_end_compares_exactly[OF end_msg_type h])
qed






text \<open>
  C6, as stated, fails. The stream delivers a file of 150000 bytes in reads of 100000 and
  50000 bytes. The sender cuts each read on its own: the chunks have 65536, 34464 and
  50000 bytes, and the second one, which is not the last, is shorter than 64 KiB.
\<close>

theorem C6_unaligned_reads:
  "wire (snd (sendFileInChunks toy (toy_keys 5) big_file [Text (Some (ekey_msg (toy_export 21)))]
               unaligned_reads iv12 demo_clock)) =
     [Text (Some (meta_msg toy big_file (toy_export 15)))] @
     chunk_frames toy (deriveAesKey toy 5 21) (iv12 0) (replicate 65536 0) @
     chunk_frames toy (deriveAesKey toy 5 21) (iv12 1) (replicate 34464 0) @
     chunk_frames toy (deriveAesKey toy 5 21) (iv12 2) (replicate 50000 0) @
     [Text (Some end_msg)]
   \<and> concat unaligned_reads = arrayBuffer big_file
   \<and> length (replicate 34464 (0::byte)) < CHUNK"
proof -
  have w: "waitForPeerPubKey [Text (Some (ekey_msg (toy_export 21)))] = Some (toy_export 21)"
    by (rule waitForPeerPubKey_ekey) (simp add: toy_export_def)
  have i: "importKey toy (Some (toy_export 21)) = Inr 21"
    using toy_jwk(1)[of 21] by (simp add: toy_def)
  have c: "concat unaligned_reads = arrayBuffer big_file"
    by (simp add: unaligned_reads_def big_file_def replicate_add[symmetric])
  show ?thesis
    unfolding sendFileInChunks_completed(2)[OF w i] unaligned_pieces
    using c by (simp add: toy_keys_def toy_def CHUNK_def numeral_3_eq_3 numeral_2_eq_2)
qed

text \<open>
  C6, amended. Once the peer's key has arrived, the sender emits the \<^verbatim>\<open>meta\<close> frame, then
  for each chunk its header immediately followed by its one ciphertext frame, then \<^verbatim>\<open>end\<close>.
  The chunks are the pieces of each read of the stream, taken read by read, in the order of
  the bytes: together they are the file; each one is non-empty and has at most 64 KiB; within
  a read every piece but the last has exactly 64 KiB, so that only the last chunk is shorter
  when the stream delivers the file in one read; an empty file has no chunk. The chunk of index
  \<open>i\<close> is encrypted with the IV of the \<open>i\<close>-th call of the random generator.
\<close>

theorem C6_sender_chunking:
  assumes "waitForPeerPubKey inbox = Some jwk" and "importKey P (Some jwk) = Inr pk"
    and "concat reads = arrayBuffer f"
  shows "wire (snd (sendFileInChunks P keyPair f inbox reads rng clock)) =
           Text (Some (meta_msg P f (exportKey P (snd keyPair)))) #
           frames_of P (deriveAesKey P (fst keyPair) pk) rng 0 (concat (map split64 reads)) @
           [Text (Some end_msg)]
       \<and> concat (concat (map split64 reads)) = arrayBuffer f
       \<and> (\<forall>v \<in> set reads. \<forall>p \<in> set (split64 v). p \<noteq> [] \<and> length p \<le> CHUNK)
       \<and> (\<forall>v \<in> set reads. \<forall>p \<in> set (butlast (split64 v)). length p = CHUNK)
       \<and> (arrayBuffer f = [] \<longrightarrow> concat (map split64 reads) = [])"
proof -
  have e: "arrayBuffer f = [] \<longrightarrow> concat (map split64 reads) = []"
    using assms(3)[symmetric] by (auto simp: split64_Nil)
  show ?thesis
    using sendFileInChunks_completed(2)[OF assms(1,2)] e assms(3)
    by (simp add: pieces_concat split64_sizes split64_full)
qed

theorem C6_sender_chunking_witness:
  "wire (snd (sendFileInChunks toy (toy_keys 5) demo_file [Text (Some (ekey_msg (toy_export 21)))]
                [[1, 2, 3], [4, 5]] iv12 demo_clock)) =
           Text (Some (meta_msg toy demo_file (exportKey toy (snd (toy_keys 5))))) #
           frames_of toy (deriveAesKey toy (fst (toy_keys 5)) 21) iv12 0
             (concat (map split64 [[1, 2, 3], [4, 5]])) @
           [Text (Some end_msg)]
       \<and> concat (concat (map split64 [[1, 2, 3], [4, 5]])) = arrayBuffer demo_file
       \<and> list_all (\<lambda>v. list_all (\<lambda>p. p \<noteq> [] \<and> length p \<le> CHUNK) (split64 v)) [[1, 2, 3], [4, 5]]
       \<and> list_all (\<lambda>v. list_all (\<lambda>p. length p = CHUNK) (butlast (split64 v))) [[1, 2, 3], [4, 5]]"
proof -
  have w: "waitForPeerPubKey [Text (Some (ekey_msg (toy_export 21)))] = Some (toy_export 21)"
    by (rule waitForPeerPubKey_ekey) (simp add: toy_export_def)
  have i: "importKey toy (Some (toy_export 21)) = Inr 21"
    using toy_jwk(1)[of 21] by (simp add: toy_def)
  have c: "concat [[1, 2, 3], [4, 5]] = arrayBuffer demo_file"
    by (simp add: demo_file_def)
  show ?thesis
    using C6_sender_chunking[OF w i c, of "toy_keys 5" iv12 demo_clock]
    unfolding list_all_iff by blast
qed

text \<open>
  C7, as stated, fails. After a first \<^verbatim>\<open>meta\<close> message for a file of 5 bytes, a second
  \<^verbatim>\<open>meta\<close> message changes the expected size to 0 and the expected hash to its own.
\<close>

theorem C7_second_meta_replaces:
  "optfield (meta (run toy (bind (toy_keys 7)) [Text (Some demo_meta)])) ''size'' = Some (JNum 5)
   \<and> optfield (meta (run toy (bind (toy_keys 7)) [Text (Some demo_meta), Text (Some upper_meta)])) ''size'' =
       Some (JNum 0)
   \<and> optfield (meta (run toy (bind (toy_keys 7)) [Text (Some demo_meta), Text (Some upper_meta)])) ''hash'' =
       Some (JStr upper_hash)
   \<and> optfield (meta (run toy (bind (toy_keys 7)) [Text (Some demo_meta)])) ''hash'' \<noteq>
       Some (JStr upper_hash)"
proof -
  have t: "field demo_meta ''type'' = Some (JStr ''meta'')"
     "field upper_meta ''type'' = Some (JStr ''meta'')"
    by (simp_all add: demo_meta_def meta_msg_fields upper_meta_def)
  have h: "sha256 toy (arrayBuffer demo_file) \<noteq> upper_hash"
    by (simp add: sha256_def toy_def toy_digest_def hex2_def hexdigit_def upper_hash_def
        sha256_empty_def demo_file_def)
  have f: "field demo_meta ''size'' = Some (JNum 5)"
    "field demo_meta ''hash'' = Some (JStr (sha256 toy (arrayBuffer demo_file)))"
    "field upper_meta ''size'' = Some (JNum 0)"
    "field upper_meta ''hash'' = Some (JStr upper_hash)"
    by (simp_all add: demo_meta_def meta_msg_fields file_size_def demo_file_def upper_meta_def)
  show ?thesis
    unfolding meta_deliver run_Cons run_Nil
    using h by (simp add: t f)
qed

text \<open>
  C7, amended. The metadata the receiver holds is that of the last \<^verbatim>\<open>meta\<close> message it was
  given: frames that are not \<^verbatim>\<open>meta\<close> messages never alter it, and every further \<^verbatim>\<open>meta\<close>
  message takes the place of the one before, with its size and its hash.
\<close>

theorem C7_last_meta_wins:
  "meta (run P r fs) = (if metas fs = [] then meta r else Some (last (metas fs)))"
proof (induction fs arbitrary: r)
  case Nil
  then show ?case by simp
next
  case (Cons f fs)
  have "meta (run P r (f # fs)) =
          (if metas fs = [] then meta (deliver P r f) else Some (last (metas fs)))"
    using Cons by simp
  then show ?case
    unfolding meta_deliver metas_Cons[of f fs] by simp
qed

text \<open>
  C8, as stated, fails. The fifth property of the \<^verbatim>\<open>meta\<close> frame is named \<^verbatim>\<open>ecdhPub\<close>; the
  frame has no property \<^verbatim>\<open>exchangePublicKey\<close>.
\<close>

theorem C8_meta_field_name:
  "case hd (wire (snd (sendFileInChunks toy (toy_keys 5) demo_file [] [[1, 2, 3], [4, 5]] iv12 demo_clock))) of
     Text (Some m) \<Rightarrow> keys_of m = [''type'', ''name'', ''size'', ''hash'', ''ecdhPub'']
                    \<and> field m ''exchangePublicKey'' = None
   | _ \<Rightarrow> False"
  by (simp add: sendFileInChunks_def Let_def meta_msg_def)

text \<open>
  C8, amended. However the transfer goes on, the first frame the sender emits is one object
  with exactly the properties \<^verbatim>\<open>type\<close> (\<^verbatim>\<open>"meta"\<close>), \<^verbatim>\<open>name\<close>, \<^verbatim>\<open>size\<close>, \<^verbatim>\<open>hash\<close> and
  \<^verbatim>\<open>ecdhPub\<close>, the last being the sender's exported public key.
\<close>

theorem C8_meta_frame:
  "take 1 (wire (snd (sendFileInChunks P keyPair f inbox reads rng clock))) =
     [Text (Some (JObj [(''type'', JStr ''meta''), (''name'', JStr (name f)),
                        (''size'', JNum (of_nat (file_size f))),
                        (''hash'', JStr (sha256 P (arrayBuffer f))),
                        (''ecdhPub'', exportKey P (snd keyPair))]))]"
  by (simp add: sendFileInChunks_def Let_def read_loop_wire meta_msg_def exportPubKeyJwk_def
      split: option.splits sum.splits)

text \<open>
  C9, as stated, fails. For the empty file the receiver completes the transfer, every
  handler having ended, without ever reporting a progress value: its progress does not
  reach 100.
\<close>

theorem C9_empty_file_no_progress:
  "case session toy (toy_keys 5) (toy_keys 7) empty_file [] iv12 demo_clock [Dispatch, Resume 0, Resume 0] of
     (out, s, l) \<Rightarrow>
       out = Completed \<and> queue l = [] \<and> suspended l = [] \<and> rejected l = [] \<and>
       urlLog (rcv l) = [[]] \<and>
       statusLog (rcv l) = [WaitingForMetadata, Receiving (Some (JStr ''empty.bin'')) (Some (JNum 0)),
                            CompletedIntegrityOK] \<and>
       progressLog (rcv l) = []"
  unfolding honest_session[OF toy_aead_all toy_ecdh toy_jwk(1) toy_jwk(1) toy_jwk(2) empty_concat]
  by (simp add: event_loop_def end_msg_def verify_def meta_msg_def bind_def empty_file_def
      file_size_def)

text \<open>
  C9, amended. In a session of an honest sender with the receiver, the progress values the
  sender reports do not decrease, do not exceed 100 and end with exactly 100, for the empty
  file too. Whatever the order in which the receiver's handlers are dispatched and resumed,
  the values the receiver reports are numbers that do not decrease and do not exceed 100,
  and for the empty file the receiver reports none. Whether the receiver's last value is
  100 is left open.
\<close>

theorem C9_progress_reports:
  assumes "\<forall>k iv pt. decrypt P k iv (encrypt P k iv pt) = Some pt"
    and "deriveBits P (fst senderKeys) (snd receiverKeys) = deriveBits P (fst receiverKeys) (snd senderKeys)"
    and "importKey P (Some (exportKey P (snd senderKeys))) = Inr (snd senderKeys)"
    and "importKey P (Some (exportKey P (snd receiverKeys))) = Inr (snd receiverKeys)"
    and "truthy (exportKey P (snd receiverKeys))"
    and "concat reads = arrayBuffer f"
  shows "case session P senderKeys receiverKeys f reads rng clock sched of
           (out, s, l) \<Rightarrow>
             sorted (map progress (reports s)) \<and>
             list_all (\<lambda>rp. progress rp \<le> 100) (reports s) \<and>
             reports s \<noteq> [] \<and> progress (last (reports s)) = 100 \<and>
             list_all (\<lambda>q. q \<noteq> None) (progressLog (rcv l)) \<and>
             sorted (map the (progressLog (rcv l))) \<and>
             list_all (\<lambda>q. the q \<le> 100) (progressLog (rcv l)) \<and>
             (file_size f = 0 \<longrightarrow> progressLog (rcv l) = [])"
proof -
  define inbox where "inbox = [Text (Some (ekey_msg (exportKey P (snd receiverKeys))))]"
  define s where "s = snd (sendFileInChunks P senderKeys f inbox reads rng clock)"
  define k where "k = deriveAesKey P (fst senderKeys) (snd receiverKeys)"
  define m where "m = meta_msg P f (exportKey P (snd senderKeys))"
  define S where "S = file_size f"
  obtain out s' l where sess: "session P senderKeys receiverKeys f reads rng clock sched = (out, s', l)"
    by (cases "session P senderKeys receiverKeys f reads rng clock sched") auto
  from honest_steady[OF assms, of rng clock sched]
  have s': "s' = s" and st: "steady P k m S l"
    unfolding sess s_def inbox_def k_def m_def S_def by simp_all
  have w: "waitForPeerPubKey inbox = Some (exportKey P (snd receiverKeys))"
    unfolding inbox_def using assms(5) by (rule waitForPeerPubKey_ekey)
  have snd: "sorted (map progress (reports s)) \<and> list_all (\<lambda>rp. progress rp \<le> 100) (reports s) \<and>
             reports s \<noteq> [] \<and> progress (last (reports s)) = 100"
    unfolding s_def by (rule sender_reports[OF w assms(4) assms(6)])
  have rb: "receivedBytes (rcv l) \<le> S"
    using st unfolding steady_def by simp
  have top: "(of_nat (receivedBytes (rcv l)) / of_nat S) * (100::rat) \<le> 100"
  proof (cases "S = 0")
    case True
    then show ?thesis by simp
  next
    case False
    have "(of_nat (receivedBytes (rcv l)) / of_nat S) * (100::rat) \<le> (of_nat S / of_nat S) * 100"
      using rb by (rule pct_mono)
    then show ?thesis using False by simp
  qed
  have b: "list_all (\<lambda>q. the q \<le> 100) (progressLog (rcv l))"
    using st top unfolding steady_def list_all_iff by (meson order_trans)
  have rcv: "list_all (\<lambda>q. q \<noteq> None) (progressLog (rcv l)) \<and>
             sorted (map the (progressLog (rcv l))) \<and>
             (S = 0 \<longrightarrow> progressLog (rcv l) = [])"
    using st unfolding steady_def by simp
  show ?thesis
    unfolding sess using snd rcv b by (simp add: s' S_def)
qed

theorem C9_progress_reports_witness:
  "case session toy (toy_keys 5) (toy_keys 7) demo_file [[1, 2, 3], [4, 5]] iv12 demo_clock end_early of
           (out, s, l) \<Rightarrow>
             sorted (map progress (reports s)) \<and>
             list_all (\<lambda>rp. progress rp \<le> 100) (reports s) \<and>
             reports s \<noteq> [] \<and> progress (last (reports s)) = 100 \<and>
             list_all (\<lambda>q. q \<noteq> None) (progressLog (rcv l)) \<and>
             sorted (map the (progressLog (rcv l))) \<and>
             list_all (\<lambda>q. the q \<le> 100) (progressLog (rcv l))"
proof -
  have "case session toy (toy_keys 5) (toy_keys 7) demo_file [[1, 2, 3], [4, 5]] iv12 demo_clock end_early of
           (out, s, l) \<Rightarrow>
             sorted (map progress (reports s)) \<and>
             list_all (\<lambda>rp. progress rp \<le> 100) (reports s) \<and>
             reports s \<noteq> [] \<and> progress (last (reports s)) = 100 \<and>
             list_all (\<lambda>q. q \<noteq> None) (progressLog (rcv l)) \<and>
             sorted (map the (progressLog (rcv l))) \<and>
             list_all (\<lambda>q. the q \<le> 100) (progressLog (rcv l)) \<and>
             (file_size demo_file = 0 \<longrightarrow> progressLog (rcv l) = [])"
    by (rule C9_progress_reports[OF toy_aead_all toy_ecdh toy_jwk(1) toy_jwk(1) toy_jwk(2) demo_concat])
  then show ?thesis
    by (simp split: prod.splits)
qed

text \<open>
  C10. When no \<^verbatim>\<open>meta\<close> message was received, or the one received has no \<^verbatim>\<open>hash\<close>, an
  \<^verbatim>\<open>end\<close> message makes the receiver produce the download from the chunks it holds and
  set the status of a completed transfer with the integrity confirmed; the digest is not
  compared with anything.
\<close>

theorem C10_end_without_hash:
  assumes "field msg ''type'' = Some (JStr ''end'')"
    and "meta r = None \<or> optfield (meta r) ''hash'' = None"
  shows "onmessage P r (Text (Some msg)) =
           (None, r\<lparr> urlLog := urlLog r @ [concat (chunks r)],
                     statusLog := statusLog r @ [CompletedIntegrityOK] \<rparr>)"
  using assms by (auto simp add: on_end_def verify_def)

theorem C10_end_without_hash_witness:
  "onmessage toy (bind (toy_keys 7)) (Text (Some end_msg)) =
     (None, (bind (toy_keys 7))
              \<lparr> urlLog := urlLog (bind (toy_keys 7)) @ [concat (chunks (bind (toy_keys 7)))],
                statusLog := statusLog (bind (toy_keys 7)) @ [CompletedIntegrityOK] \<rparr>)"
proof -
  have h: "meta (bind (toy_keys 7) :: (byte, byte) receiver) = None
           \<or> optfield (meta (bind (toy_keys 7) :: (byte, byte) receiver)) ''hash'' = None"
    by (simp add: bind_def)
  show ?thesis
    by (rule C10_end_without_hash[OF end_msg_type h])
qed

end
